theory Spec2Isabelle
  imports Main "HOL-Library.Word"
begin

unbundle bit_operations_syntax

section \<open>Machine types and errors\<close>

text \<open>
  The C++ fixed-width types of \<^verbatim>\<open>utils.cpp\<close>. \<^verbatim>\<open>unsigned char\<close> and
  \<^verbatim>\<open>uint8_t\<close> are \<open>u8\<close>; \<^verbatim>\<open>int\<close> is the 32-bit two's complement type of
  every platform the file builds on (Linux, BSD, MinGW) and is kept as a \<open>32 word\<close> that
  is read signed where the code converts it to a wider type; \<^verbatim>\<open>size_t\<close> is the
  64-bit type of an LP64/LLP64 build.
\<close>

type_synonym u8 = "8 word"
type_synonym u16 = "16 word"
type_synonym u32 = "32 word"
type_synonym u64 = "64 word"
type_synonym c_int = "32 word"

text \<open>
  The two ways a call can end without a result: \<^verbatim>\<open>throw read_exception()\<close> in
  \<^verbatim>\<open>move_forward\<close>, and a failed \<^verbatim>\<open>assert\<close>, which \<^verbatim>\<open>do_assert\<close> turns into
  a message and \<^verbatim>\<open>exit(1)\<close>.
\<close>

datatype error = read_exception | assertion_failed

section \<open>Byte order of the host\<close>

text \<open>
  \<^verbatim>\<open>htole16\<close>, \<^verbatim>\<open>htole32\<close> and \<^verbatim>\<open>htole64\<close> come from the platform's
  \<^verbatim>\<open>endian.h\<close>: the identity on a little-endian host, a byte swap on a big-endian one.
  The code then copies the object representation of the converted value, which is the
  value's bytes in host order.
\<close>

datatype endianness = LittleEndian | BigEndian

definition byte_at :: "nat \<Rightarrow> 'a::len word \<Rightarrow> 'a word" where
  "byte_at k x = take_bit 8 (drop_bit (8 * k) x)"

definition bswap_16 :: "u16 \<Rightarrow> u16" where
  "bswap_16 x = push_bit 8 (byte_at 0 x) OR byte_at 1 x"

definition bswap_32 :: "u32 \<Rightarrow> u32" where
  "bswap_32 x =
     push_bit 24 (byte_at 0 x) OR push_bit 16 (byte_at 1 x) OR push_bit 8 (byte_at 2 x)
     OR byte_at 3 x"

definition bswap_64 :: "u64 \<Rightarrow> u64" where
  "bswap_64 x =
     push_bit 56 (byte_at 0 x) OR push_bit 48 (byte_at 1 x) OR push_bit 40 (byte_at 2 x)
     OR push_bit 32 (byte_at 3 x) OR push_bit 24 (byte_at 4 x) OR push_bit 16 (byte_at 5 x)
     OR push_bit 8 (byte_at 6 x) OR byte_at 7 x"

definition htole16 :: "endianness \<Rightarrow> u16 \<Rightarrow> u16" where
  "htole16 host x = (case host of LittleEndian \<Rightarrow> x | BigEndian \<Rightarrow> bswap_16 x)"

definition htole32 :: "endianness \<Rightarrow> u32 \<Rightarrow> u32" where
  "htole32 host x = (case host of LittleEndian \<Rightarrow> x | BigEndian \<Rightarrow> bswap_32 x)"

definition htole64 :: "endianness \<Rightarrow> u64 \<Rightarrow> u64" where
  "htole64 host x = (case host of LittleEndian \<Rightarrow> x | BigEndian \<Rightarrow> bswap_64 x)"

text \<open>The bytes of a value, least significant first and most significant first.\<close>

definition le_bytes :: "nat \<Rightarrow> 'a::len word \<Rightarrow> u8 list" where
  "le_bytes n x = map (\<lambda>i. ucast (drop_bit (8 * i) x)) [0..<n]"

definition be_bytes :: "nat \<Rightarrow> 'a::len word \<Rightarrow> u8 list" where
  "be_bytes n x = rev (le_bytes n x)"

text \<open>The number a run of bytes stands for when read least significant byte first.\<close>

definition le_value :: "u8 list \<Rightarrow> nat" where
  "le_value bs = foldr (\<lambda>b v. unat b + 256 * v) bs 0"

text \<open>
  The object representation of an \<open>n\<close>-byte integer in memory, which is what
  \<^verbatim>\<open>(unsigned char*)&lesize\<close> and a store through a \<^verbatim>\<open>uint32_t\<close> member expose.
\<close>

definition object_bytes :: "endianness \<Rightarrow> nat \<Rightarrow> 'a::len word \<Rightarrow> u8 list" where
  "object_bytes host n x = (case host of LittleEndian \<Rightarrow> le_bytes n x | BigEndian \<Rightarrow> be_bytes n x)"

section \<open>Varint processing\<close>

text \<open>
  An iterator into the byte vector is its offset from the vector's start, and iterator
  arithmetic is integer arithmetic on offsets. \<^verbatim>\<open>move_forward\<close> takes the iterator by
  reference, so the model returns the iterator's new value; on the throw the iterator has
  not been written.

  The source compares pointers, and \<^verbatim>\<open>end-i\<close> is computed on the pointer. The two
  comparisons agree whenever the vector has storage, which every non-empty vector has: its
  addresses lie well inside the address space and \<^verbatim>\<open>end-i\<close> does not wrap for the
  steps 1, 2, 4 and 8 that \<^verbatim>\<open>read_varint\<close> takes. They differ on a vector that was
  never given storage, whose \<^verbatim>\<open>begin\<close> and \<^verbatim>\<open>end\<close> are null: there
  \<^verbatim>\<open>end-1\<close> wraps to the top of the address space and the source does not throw.
  The theorems about the throw are therefore stated for non-empty buffers.
\<close>

definition move_forward :: "nat \<Rightarrow> nat \<Rightarrow> nat \<Rightarrow> error + nat" where
  "move_forward it i end_it =
     (if int it > int end_it - int i then Inl read_exception else Inr (it + i))"

text \<open>
  \<^verbatim>\<open>read_varint\<close> returns the pair of its outcome and the value the caller's iterator
  holds afterwards, also when it throws. \<open>deref buf k\<close> is \<^verbatim>\<open>*(it-j)\<close> for the
  offset \<open>k\<close> of \<^verbatim>\<open>it-j\<close>. In the \<^verbatim>\<open>0xfd\<close> and \<^verbatim>\<open>0xfe\<close> branches every byte is
  promoted to \<^verbatim>\<open>int\<close> before the shift, the bitwise or is taken in \<^verbatim>\<open>int\<close>, and the
  \<^verbatim>\<open>int\<close> is converted to the \<^verbatim>\<open>uint64_t\<close> return type, which keeps its value modulo
  \<open>2^64\<close>, that is, sign-extends it (\<open>scast\<close>). A byte of \<open>0x80\<close> or more shifted
  left by 24 reaches the sign bit; the result is the two's complement value, which is what
  the compilers of those platforms produce and what C++20 defines. In the last branch every
  byte is converted to \<^verbatim>\<open>uint64_t\<close> before the shift.
\<close>

definition deref :: "u8 list \<Rightarrow> nat \<Rightarrow> u8" where
  "deref buf k = buf ! k"

definition promote :: "u8 \<Rightarrow> c_int" where
  "promote b = ucast b"

definition read_varint :: "u8 list \<Rightarrow> nat \<Rightarrow> nat \<Rightarrow> (error + u64) \<times> nat" where
  "read_varint buf it end_it =
     (case move_forward it 1 end_it of
        Inl e \<Rightarrow> (Inl e, it)
      | Inr it1 \<Rightarrow>
          let first = deref buf (it1 - 1) in
          if first < 0xfd then (Inr (ucast first), it1)
          else if first = 0xfd then
            (case move_forward it1 2 end_it of
               Inl e \<Rightarrow> (Inl e, it1)
             | Inr it2 \<Rightarrow>
                 (Inr (scast (push_bit 8 (promote (deref buf (it2 - 1)))
                              OR promote (deref buf (it2 - 2)))), it2))
          else if first = 0xfe then
            (case move_forward it1 4 end_it of
               Inl e \<Rightarrow> (Inl e, it1)
             | Inr it2 \<Rightarrow>
                 (Inr (scast (push_bit 24 (promote (deref buf (it2 - 1)))
                              OR push_bit 16 (promote (deref buf (it2 - 2)))
                              OR push_bit 8 (promote (deref buf (it2 - 3)))
                              OR promote (deref buf (it2 - 4)))), it2))
          else
            (case move_forward it1 8 end_it of
               Inl e \<Rightarrow> (Inl e, it1)
             | Inr it2 \<Rightarrow>
                 (Inr (push_bit 56 (ucast (deref buf (it2 - 1)))
                       OR push_bit 48 (ucast (deref buf (it2 - 2)))
                       OR push_bit 40 (ucast (deref buf (it2 - 3)))
                       OR push_bit 32 (ucast (deref buf (it2 - 4)))
                       OR push_bit 24 (ucast (deref buf (it2 - 5)))
                       OR push_bit 16 (ucast (deref buf (it2 - 6)))
                       OR push_bit 8 (ucast (deref buf (it2 - 7)))
                       OR ucast (deref buf (it2 - 8))), it2)))"

text \<open>
  \<^verbatim>\<open>varint\<close> takes a \<^verbatim>\<open>uint32_t\<close>. The comparisons are made on that type, so the
  last branch is written down as the source has it although no 32-bit value reaches it.
  \<^verbatim>\<open>uint16_t lesize = htole16(size)\<close> first narrows \<^verbatim>\<open>size\<close> (here \<open>sz\<close>) to 16 bits.
\<close>

definition varint :: "endianness \<Rightarrow> u32 \<Rightarrow> u8 list" where
  "varint host sz =
     (if sz < 0xfd then
        (let lesize = (ucast sz :: u8) in [lesize])
      else if sz \<le> 0xffff then
        (let lesize = htole16 host (ucast sz) in [0xfd] @ object_bytes host 2 lesize)
      else if sz \<le> 0xffffffff then
        (let lesize = htole32 host sz in [0xfe] @ object_bytes host 4 lesize)
      else
        (let lesize = htole64 host (ucast sz) in [0xff] @ object_bytes host 8 lesize))"

section \<open>Memory\<close>

text \<open>
  A buffer is the list of its bytes and a pointer into it is an offset. The C library
  calls write a run of bytes at an offset; the caller must have made the buffer large
  enough, and every theorem below states that it is.
\<close>

fun write_bytes :: "u8 list \<Rightarrow> nat \<Rightarrow> u8 list \<Rightarrow> u8 list" where
  "write_bytes mem ptr [] = mem"
| "write_bytes mem ptr (b # bs) = write_bytes (mem[ptr := b]) (Suc ptr) bs"

definition memcpy :: "u8 list \<Rightarrow> nat \<Rightarrow> u8 list \<Rightarrow> nat \<Rightarrow> u8 list" where
  "memcpy mem dst src n = write_bytes mem dst (take n src)"

definition memset :: "u8 list \<Rightarrow> nat \<Rightarrow> u8 \<Rightarrow> nat \<Rightarrow> u8 list" where
  "memset mem dst c n = write_bytes mem dst (replicate n c)"

text \<open>
  \<^verbatim>\<open>strcpy\<close> copies the characters up to the first NUL, and the NUL. The model writes
  them into the buffer at the destination and knows no bound but the buffer's. For the
  one call in \<^verbatim>\<open>prepare_message\<close> the destination is the 12-byte member
  \<^verbatim>\<open>header->command\<close>: a command of at most 11 characters stays inside it, and for
  those the model is the source. A command of 12 or more characters is written past the
  member; there the model follows a build without object-size checks, which writes on
  into the header (a build with \<^verbatim>\<open>_FORTIFY_SOURCE\<close> aborts instead).
\<close>

definition strcpy :: "u8 list \<Rightarrow> nat \<Rightarrow> u8 list \<Rightarrow> u8 list" where
  "strcpy mem dst src = write_bytes mem dst (takeWhile (\<lambda>c. c \<noteq> 0) src @ [0])"

text \<open>An assignment to a \<^verbatim>\<open>uint32_t\<close> member stores the value's object representation.\<close>

definition store_u32 :: "endianness \<Rightarrow> u8 list \<Rightarrow> nat \<Rightarrow> u32 \<Rightarrow> u8 list" where
  "store_u32 host mem ptr x = write_bytes mem ptr (object_bytes host 4 x)"

section \<open>Double SHA-256\<close>

definition WriteBE64 :: "u8 list \<Rightarrow> nat \<Rightarrow> u64 \<Rightarrow> u8 list" where
  "WriteBE64 mem ptr x =
     mem[ptr := ucast (drop_bit 56 x), ptr + 1 := ucast (drop_bit 48 x),
         ptr + 2 := ucast (drop_bit 40 x), ptr + 3 := ucast (drop_bit 32 x),
         ptr + 4 := ucast (drop_bit 24 x), ptr + 5 := ucast (drop_bit 16 x),
         ptr + 6 := ucast (drop_bit 8 x), ptr + 7 := ucast x]"

definition WriteBE32 :: "u8 list \<Rightarrow> nat \<Rightarrow> u32 \<Rightarrow> u8 list" where
  "WriteBE32 mem ptr x =
     mem[ptr := ucast (drop_bit 24 x), ptr + 1 := ucast (drop_bit 16 x),
         ptr + 2 := ucast (drop_bit 8 x), ptr + 3 := ucast x]"

text \<open>\<^verbatim>\<open>uint32_t state[8]\<close>.\<close>

type_synonym sha256_state = "u32 \<times> u32 \<times> u32 \<times> u32 \<times> u32 \<times> u32 \<times> u32 \<times> u32"

definition sha256_init :: sha256_state where
  "sha256_init =
     (0x6a09e667, 0xbb67ae85, 0x3c6ef372, 0xa54ff53a,
      0x510e527f, 0x9b05688c, 0x1f83d9ab, 0x5be0cd19)"

fun sha256_done :: "u8 list \<Rightarrow> nat \<Rightarrow> sha256_state \<Rightarrow> u8 list" where
  "sha256_done mem res (s0, s1, s2, s3, s4, s5, s6, s7) =
     (let mem = WriteBE32 mem res s0;
          mem = WriteBE32 mem (res + 4) s1;
          mem = WriteBE32 mem (res + 8) s2;
          mem = WriteBE32 mem (res + 12) s3;
          mem = WriteBE32 mem (res + 16) s4;
          mem = WriteBE32 mem (res + 20) s5;
          mem = WriteBE32 mem (res + 24) s6;
          mem = WriteBE32 mem (res + 28) s7
      in mem)"

text \<open>
  The 32 bytes of a digest: the state words in order, each most significant byte first.
  This is what \<^verbatim>\<open>sha256_done\<close> is shown to write.
\<close>

fun digest_bytes :: "sha256_state \<Rightarrow> u8 list" where
  "digest_bytes (s0, s1, s2, s3, s4, s5, s6, s7) =
     be_bytes 4 s0 @ be_bytes 4 s1 @ be_bytes 4 s2 @ be_bytes 4 s3
     @ be_bytes 4 s4 @ be_bytes 4 s5 @ be_bytes 4 s6 @ be_bytes 4 s7"

text \<open>
  The build with \<^verbatim>\<open>SHA256\<close> defined is the one modelled: the two functions prepare
  the padded blocks themselves and hand them to
  \<^verbatim>\<open>extern "C" void SHA256(void *, uint32_t[8], uint64_t)\<close>, which is not part of the
  file. That routine is a parameter of the model: a function of the memory at the pointer,
  the state and the block count to the new state. (The other build hands the input to
  the class \<^verbatim>\<open>CSHA256\<close> of \<^verbatim>\<open>crypto/sha2.h\<close>, which pads internally.)
\<close>

type_synonym SHA256_fn = "u8 list \<Rightarrow> sha256_state \<Rightarrow> u64 \<Rightarrow> sha256_state"

definition pad_count_of :: "u64 \<Rightarrow> u64" where
  "pad_count_of byte_count = 1 + ((119 - (byte_count mod 64)) mod 64)"

text \<open>
  The first part of \<^verbatim>\<open>double_sha256\<close>, up to the assertion: the vector \<^verbatim>\<open>data\<close>,
  value-initialised by its constructor and then filled.
\<close>

definition first_pass_data :: "u8 list \<Rightarrow> u64 \<Rightarrow> u8 list" where
  "first_pass_data input byte_count =
     (let pad_count = pad_count_of byte_count;
          data = replicate (unat (byte_count + pad_count + 8)) 0;
          data = memcpy data 0 input (unat byte_count);
          data = data[unat byte_count := 0x80];
          data = memset data (unat (byte_count + 1)) 0 (unat (pad_count - 1));
          data = WriteBE64 data (unat (byte_count + pad_count)) (push_bit 3 byte_count)
      in data)"

text \<open>
  The second pass, shared word for word by both functions: the digest of the first pass
  is written over the start of \<^verbatim>\<open>data\<close> and padded in place to one block.
\<close>

definition second_pass_data :: "u8 list \<Rightarrow> sha256_state \<Rightarrow> u8 list" where
  "second_pass_data data state =
     (let data = sha256_done data 0 state;
          data = data[32 := 0x80];
          data = memset data (32 + 1) 0 (32 - 8 - 1);
          data = WriteBE64 data (64 - 8) (push_bit 3 32)
      in data)"

text \<open>
  \<open>res\<close> is the caller's 32-byte output buffer with whatever it held; the result is
  the buffer after the call.
\<close>

definition double_sha256 :: "SHA256_fn \<Rightarrow> u8 list \<Rightarrow> u8 list \<Rightarrow> u64 \<Rightarrow> error + u8 list" where
  "double_sha256 SHA256 input res byte_count =
     (let pad_count = pad_count_of byte_count;
          data = first_pass_data input byte_count;
          state = sha256_init
      in if (byte_count + pad_count + 8) mod 64 \<noteq> 0 then Inl assertion_failed
         else
           (let state = SHA256 data state ((byte_count + pad_count + 8) div 64);
                data = second_pass_data data state;
                state = sha256_init;
                state = SHA256 data state 1
            in Inr (sha256_done res 0 state)))"

text \<open>
  \<open>data\<close> is the local array \<^verbatim>\<open>unsigned char data[128]\<close> with the indeterminate
  contents it has on entry. \<open>two_32_inputs_data\<close> is the array after the first five
  statements of \<^verbatim>\<open>double_sha256_two_32_inputs\<close>.
\<close>

definition two_32_inputs_data :: "u8 list \<Rightarrow> u8 list \<Rightarrow> u8 list \<Rightarrow> u8 list" where
  "two_32_inputs_data data input input2 =
     (let data = memcpy data 0 input 32;
          data = memcpy data 32 input2 32;
          data = data[64 := 0x80];
          data = memset data (64 + 1) 0 (64 - 8 - 1);
          data = WriteBE64 data (128 - 8) (push_bit 3 64)
      in data)"

definition double_sha256_two_32_inputs ::
    "SHA256_fn \<Rightarrow> u8 list \<Rightarrow> u8 list \<Rightarrow> u8 list \<Rightarrow> u8 list \<Rightarrow> u8 list" where
  "double_sha256_two_32_inputs SHA256 data input input2 res =
     (let data = two_32_inputs_data data input input2;
          state = sha256_init;
          state = SHA256 data state 2;
          data = second_pass_data data state;
          state = sha256_init;
          state = SHA256 data state 1
      in sha256_done res 0 state)"

section \<open>Message header\<close>

text \<open>
  Modelled from the spec: the layout of \<^verbatim>\<open>struct bitcoin_msg_header\<close>, declared in
  \<^verbatim>\<open>utils.h\<close>, which is not among the sources. The specification's table gives a
  packed 24-byte header: magic at offset 0 (4 bytes), command at 4 (12 bytes), length at
  16 (4 bytes), checksum at 20 (4 bytes).
\<close>

definition offsetof_magic :: nat where "offsetof_magic = 0"
definition offsetof_command :: nat where "offsetof_command = 4"
definition sizeof_command :: nat where "sizeof_command = 12"
definition offsetof_length :: nat where "offsetof_length = 16"
definition offsetof_checksum :: nat where "offsetof_checksum = 20"
definition sizeof_checksum :: nat where "sizeof_checksum = 4"
definition sizeof_bitcoin_msg_header :: nat where "sizeof_bitcoin_msg_header = 24"

text \<open>
  \<^verbatim>\<open>BITCOIN_MAGIC\<close> is a macro of the same header and is a parameter here.
  \<open>command\<close> is the memory at the \<^verbatim>\<open>const char*\<close>, \<open>headerAndData\<close> the caller's
  buffer (header, then payload) and \<open>fullhash\<close> the local array with its indeterminate
  contents. \<^verbatim>\<open>htole32(datalen)\<close> narrows the \<^verbatim>\<open>size_t\<close> to 32 bits. The function
  returns nothing and has no failure of its own; the only one the model can report is
  the assertion inside \<^verbatim>\<open>double_sha256\<close>.
\<close>

definition prepare_message ::
    "endianness \<Rightarrow> SHA256_fn \<Rightarrow> u32 \<Rightarrow> u8 list \<Rightarrow> u8 list \<Rightarrow> u8 list \<Rightarrow> u64 \<Rightarrow> error + u8 list" where
  "prepare_message host SHA256 BITCOIN_MAGIC fullhash command headerAndData datalen =
     (let mem = memset headerAndData offsetof_command 0 sizeof_command;
          mem = strcpy mem offsetof_command command;
          mem = store_u32 host mem offsetof_length (htole32 host (ucast datalen));
          mem = store_u32 host mem offsetof_magic BITCOIN_MAGIC
      in case double_sha256 SHA256 (drop sizeof_bitcoin_msg_header mem) fullhash datalen of
           Inl e \<Rightarrow> Inl e
         | Inr fullhash \<Rightarrow> Inr (memcpy mem offsetof_checksum fullhash sizeof_checksum))"

section \<open>A routine for the examples\<close>

text \<open>
  The theorems below hold for every routine passed for \<^verbatim>\<open>SHA256\<close>. An example on
  concrete bytes that is to be evaluated needs a concrete routine; what such examples show
  here (that no failure is reported, the header bytes before the checksum, the byte order
  of a digest) does not depend on which, so they use the one that leaves the state as it
  is.
\<close>

definition SHA256_unchanged :: SHA256_fn where
  "SHA256_unchanged mem st n = st"

section \<open>Facts about words and byte order\<close>

lemma take_bit_small: "(w :: 'a::len word) < 2 ^ n \<Longrightarrow> take_bit n w = w"
  by (simp add: take_bit_eq_mask less_mask_eq)

lemma bit_above:
  assumes "(w :: 'a::len word) < 2 ^ n" and "n \<le> m"
  shows "\<not> bit w m"
proof -
  have "bit w m = bit (take_bit n w) m"
    using take_bit_small [OF assms(1)] by simp
  then show ?thesis
    using assms(2) by (simp add: bit_take_bit_iff)
qed

lemma narrow_below_fd:
  assumes "(x :: u32) < 0xfd"
  shows "(ucast x :: u8) < 0xfd" and "(ucast (ucast x :: u8) :: u64) = ucast x"
proof -
  have u: "unat x < 253"
    using assms by (simp add: word_less_nat_alt)
  show "(ucast x :: u8) < 0xfd"
    using u by (simp add: word_less_nat_alt unsigned_ucast_eq take_bit_eq_mod)
  have "x < 2 ^ 8"
    using u by (simp add: word_less_nat_alt)
  then have "\<not> bit x m" if "8 \<le> m" for m
    using that bit_above by blast
  then have "bit x m \<Longrightarrow> m < 8" for m
    by (meson leI)
  then show "(ucast (ucast x :: u8) :: u64) = ucast x"
    by (intro bit_word_eqI) (auto simp add: bit_simps)
qed

lemma unat_promote: "unat (promote b) = unat b"
  using unsigned_less [of b, where 'a = nat]
  by (simp add: promote_def unsigned_ucast_eq take_bit_eq_mod)

lemma int_to_u64_nonneg:
  assumes "(w :: c_int) < 0x80000000"
  shows "(scast w :: u64) = ucast w"
proof -
  have "\<not> bit w 31"
    using assms bit_above [of w 31 31] by simp
  then show ?thesis
    by (intro bit_word_eqI)
      (auto simp add: bit_word_scast_iff bit_ucast_iff dest: bit_imp_le_length)
qed

lemma bytes_to_int32:
  "push_bit 24 (promote (ucast (drop_bit 24 x))) OR push_bit 16 (promote (ucast (drop_bit 16 x)))
     OR push_bit 8 (promote (ucast (drop_bit 8 x))) OR promote (ucast x) = (x :: u32)"
  unfolding promote_def
proof (rule bit_word_eqI)
  fix n
  assume "n < LENGTH(32)"
  then show "bit (push_bit 24 (ucast (ucast (drop_bit 24 x) :: u8)) OR push_bit 16 (ucast (ucast (drop_bit 16 x) :: u8))
     OR push_bit 8 (ucast (ucast (drop_bit 8 x) :: u8)) OR ucast (ucast x :: u8) :: u32) n = bit x n"
    by (cases "n < 8"; cases "n < 16"; cases "n < 24") (auto simp add: bit_simps not_less)
qed

lemma bytes_to_int16:
  assumes "(x :: u32) \<le> 0xffff"
  shows "push_bit 8 (promote (ucast (drop_bit 8 x))) OR promote (ucast x) = x"
proof -
  have "x < 2 ^ 16"
    using assms by (simp add: word_le_nat_alt word_less_nat_alt)
  then have high: "\<not> bit x n" if "16 \<le> n" for n
    using that bit_above by blast
  show ?thesis
    unfolding promote_def
  proof (rule bit_word_eqI)
    fix n
    assume "n < LENGTH(32)"
    then show "bit (push_bit 8 (ucast (ucast (drop_bit 8 x) :: u8)) OR ucast (ucast x :: u8) :: u32) n = bit x n"
      using high [of n] by (cases "n < 8"; cases "n < 16") (auto simp add: bit_simps not_less)
  qed
qed

lemma int16_value:
  fixes b0 b1 :: u8
  defines "w \<equiv> (push_bit 8 (promote b1) OR promote b0 :: c_int)"
  shows "(scast w :: u64) = of_nat (unat b0 + 256 * unat b1)"
proof -
  have b: "unat b0 < 256" "unat b1 < 256"
    using unsigned_less [of b0, where 'a = nat] unsigned_less [of b1, where 'a = nat]
    by simp_all
  have disj: "push_bit 8 (promote b1) OR promote b0 = push_bit 8 (promote b1) + promote b0"
    by (rule disjunctive_add [symmetric])
      (auto simp add: promote_def bit_simps dest: bit_imp_le_length)
  have "unat (push_bit 8 (promote b1)) = take_bit 32 (push_bit 8 (unat (promote b1)))"
    by (simp add: unsigned_push_bit_eq)
  also have "\<dots> = 256 * unat b1"
    using b by (simp add: unat_promote push_bit_eq_mult take_bit_eq_mod)
  finally have p: "unat (push_bit 8 (promote b1)) = 256 * unat b1" .
  have u: "unat w = unat b0 + 256 * unat b1"
    unfolding w_def disj using b p by (simp add: unat_word_ariths unat_promote)
  then have "w < 0x80000000"
    using b by (simp add: word_less_nat_alt)
  then have "(scast w :: u64) = ucast w"
    by (rule int_to_u64_nonneg)
  also have "\<dots> = of_nat (unat w)"
    by simp
  finally show ?thesis
    using u by simp
qed

lemma upt_2: "[0..<2] = [0, 1]"
  by (simp add: upt_rec)

lemma upt_4: "[0..<4] = [0, 1, 2, 3]"
  by (simp add: upt_rec)

lemma upt_8: "[0..<8] = [0, 1, 2, 3, 4, 5, 6, 7]"
  by (simp add: upt_rec)

lemma le_bytes_2: "le_bytes 2 x = [ucast x, ucast (drop_bit 8 x)]"
  by (simp add: le_bytes_def upt_2)

lemma le_bytes_4:
  "le_bytes 4 x = [ucast x, ucast (drop_bit 8 x), ucast (drop_bit 16 x), ucast (drop_bit 24 x)]"
  by (simp add: le_bytes_def upt_4)

lemma be_bytes_bswap_16: "be_bytes 2 (bswap_16 x) = le_bytes 2 x"
  unfolding be_bytes_def le_bytes_def upt_2 bswap_16_def byte_at_def
  by simp (intro conjI bit_word_eqI; auto simp add: bit_simps)

lemma be_bytes_bswap_32: "be_bytes 4 (bswap_32 x) = le_bytes 4 x"
  unfolding be_bytes_def le_bytes_def upt_4 bswap_32_def byte_at_def
  by simp (intro conjI bit_word_eqI; auto simp add: bit_simps)

lemma be_bytes_bswap_64: "be_bytes 8 (bswap_64 x) = le_bytes 8 x"
  unfolding be_bytes_def le_bytes_def upt_8 bswap_64_def byte_at_def
  by simp (intro conjI bit_word_eqI; auto simp add: bit_simps)

lemma object_bytes_htole16: "object_bytes host 2 (htole16 host x) = le_bytes 2 x"
  by (cases host) (simp_all add: object_bytes_def htole16_def be_bytes_bswap_16)

lemma object_bytes_htole32: "object_bytes host 4 (htole32 host x) = le_bytes 4 x"
  by (cases host) (simp_all add: object_bytes_def htole32_def be_bytes_bswap_32)

lemma object_bytes_htole64: "object_bytes host 8 (htole64 host x) = le_bytes 8 x"
  by (cases host) (simp_all add: object_bytes_def htole64_def be_bytes_bswap_64)

lemma le_bytes_2_narrowed:
  "le_bytes 2 (ucast (x :: u32) :: u16) = [ucast x, ucast (drop_bit 8 x)]"
  unfolding le_bytes_2
  by simp (intro conjI bit_word_eqI; auto simp add: bit_simps)

section \<open>Facts about the varint codec\<close>

text \<open>The bytes \<^verbatim>\<open>varint\<close> returns, on either host.\<close>

lemma varint_bytes:
  "varint host sz =
     (if sz < 0xfd then [ucast sz]
      else if sz \<le> 0xffff then [0xfd, ucast sz, ucast (drop_bit 8 sz)]
      else [0xfe, ucast sz, ucast (drop_bit 8 sz), ucast (drop_bit 16 sz),
            ucast (drop_bit 24 sz)])"
proof -
  have "unat sz < 2 ^ 32"
    using unsigned_less [of sz, where 'a = nat] by simp
  then have "sz \<le> 0xffffffff"
    by (simp add: word_le_nat_alt)
  then show ?thesis
    by (simp add: varint_def Let_def object_bytes_htole16 object_bytes_htole32
        le_bytes_2_narrowed le_bytes_4)
qed

text \<open>What \<^verbatim>\<open>read_varint\<close> does on each prefix when the bytes are there.\<close>

lemma read_varint_single:
  assumes "it < end_it" and "buf ! it < 0xfd"
  shows "read_varint buf it end_it = (Inr (ucast (buf ! it)), it + 1)"
  using assms by (simp add: read_varint_def move_forward_def deref_def)

lemma read_varint_fd:
  assumes "it + 3 \<le> end_it" and "buf ! it = 0xfd"
  shows "read_varint buf it end_it =
    (Inr (scast (push_bit 8 (promote (buf ! (it + 2))) OR promote (buf ! (it + 1)))), it + 3)"
  using assms by (simp add: read_varint_def move_forward_def deref_def)

lemma read_varint_fe:
  assumes "it + 5 \<le> end_it" and "buf ! it = 0xfe"
  shows "read_varint buf it end_it =
    (Inr (scast (push_bit 24 (promote (buf ! (it + 4)))
                 OR push_bit 16 (promote (buf ! (it + 3)))
                 OR push_bit 8 (promote (buf ! (it + 2)))
                 OR promote (buf ! (it + 1)))), it + 5)"
proof -
  have c: "4 + it = it + 4" "3 + it = it + 3"
    by simp_all
  show ?thesis
    using assms by (simp add: read_varint_def move_forward_def deref_def c)
qed

lemma read_varint_ff:
  assumes "it + 9 \<le> end_it" and "buf ! it = 0xff"
  shows "read_varint buf it end_it =
    (Inr (push_bit 56 (ucast (buf ! (it + 8))) OR push_bit 48 (ucast (buf ! (it + 7)))
          OR push_bit 40 (ucast (buf ! (it + 6))) OR push_bit 32 (ucast (buf ! (it + 5)))
          OR push_bit 24 (ucast (buf ! (it + 4))) OR push_bit 16 (ucast (buf ! (it + 3)))
          OR push_bit 8 (ucast (buf ! (it + 2))) OR ucast (buf ! (it + 1))), it + 9)"
proof -
  have c: "8 + it = it + 8" "7 + it = it + 7" "6 + it = it + 6" "5 + it = it + 5"
    "4 + it = it + 4" "3 + it = it + 3"
    by simp_all
  show ?thesis
    using assms by (simp add: read_varint_def move_forward_def deref_def c)
qed

lemma read_varint_at_end:
  assumes "buf \<noteq> []" and "end_it \<le> length buf"
  shows "read_varint buf end_it end_it = (Inl read_exception, end_it)"
  by (simp add: read_varint_def move_forward_def)

lemma read_varint_ff_short:
  assumes "it < end_it" and "buf ! it = 0xff" and "end_it - (it + 1) < 8"
  shows "read_varint buf it end_it = (Inl read_exception, it + 1)"
  using assms by (simp add: read_varint_def move_forward_def deref_def)

lemma read_varint_varint:
  assumes "sz < 0x80000000"
  shows "read_varint (varint host sz) 0 (length (varint host sz)) =
    (Inr (ucast sz), length (varint host sz))"
proof -
  consider (one) "sz < 0xfd" | (three) "\<not> sz < 0xfd" "sz \<le> 0xffff"
    | (five) "\<not> sz < 0xfd" "\<not> sz \<le> 0xffff"
    by blast
  then show ?thesis
  proof cases
    case one
    have v: "varint host sz = [ucast sz]"
      using one by (simp add: varint_bytes)
    have "read_varint [ucast sz] 0 1 = (Inr (ucast sz), 1)"
      using read_varint_single [of 0 1 "[ucast sz]"] narrow_below_fd [OF one] by simp
    then show ?thesis
      unfolding v by simp
  next
    case three
    let ?bs = "[0xfd, ucast sz, ucast (drop_bit 8 sz)] :: u8 list"
    have v: "varint host sz = ?bs"
      using three by (simp add: varint_bytes)
    have "read_varint ?bs 0 3 = (Inr (ucast sz), 3)"
      using read_varint_fd [of 0 3 ?bs]
      by (simp add: bytes_to_int16 [OF three(2)] int_to_u64_nonneg [OF assms])
    moreover have "length ?bs = 3"
      by simp
    ultimately show ?thesis
      unfolding v by (simp only:)
  next
    case five
    let ?bs = "[0xfe, ucast sz, ucast (drop_bit 8 sz), ucast (drop_bit 16 sz),
      ucast (drop_bit 24 sz)] :: u8 list"
    have v: "varint host sz = ?bs"
      using five by (simp add: varint_bytes)
    have "read_varint ?bs 0 5 = (Inr (ucast sz), 5)"
      using read_varint_fe [of 0 5 ?bs]
      by (simp add: bytes_to_int32 int_to_u64_nonneg [OF assms])
    moreover have "length ?bs = 5"
      by simp
    ultimately show ?thesis
      unfolding v by (simp only:)
  qed
qed

section \<open>Facts about memory writes\<close>

lemma length_write_bytes [simp]: "length (write_bytes mem ptr bs) = length mem"
  by (induction bs arbitrary: mem ptr) simp_all

lemma write_bytes_append:
  "write_bytes mem ptr (as @ bs) = write_bytes (write_bytes mem ptr as) (ptr + length as) bs"
  by (induction as arbitrary: mem ptr) simp_all

lemma write_bytes_next:
  "q = ptr + length as \<Longrightarrow>
   write_bytes (write_bytes mem ptr as) q bs = write_bytes mem ptr (as @ bs)"
  by (simp add: write_bytes_append)

text \<open>A write that stays inside the buffer replaces exactly the bytes it covers.\<close>

lemma write_bytes_eq:
  "ptr + length bs \<le> length mem \<Longrightarrow>
   write_bytes mem ptr bs = take ptr mem @ bs @ drop (ptr + length bs) mem"
proof (induction bs arbitrary: mem ptr)
  case Nil
  then show ?case
    by simp
next
  case (Cons b bs)
  have "write_bytes mem ptr (b # bs) = write_bytes (mem[ptr := b]) (Suc ptr) bs"
    by simp
  also have "\<dots> =
    take (Suc ptr) (mem[ptr := b]) @ bs @ drop (Suc ptr + length bs) (mem[ptr := b])"
    using Cons.prems by (intro Cons.IH) simp
  also have "\<dots> = take ptr mem @ (b # bs) @ drop (ptr + length (b # bs)) mem"
    using Cons.prems by (simp add: take_Suc_conv_app_nth)
  finally show ?case .
qed

lemma write_bytes_all:
  assumes "length bs = length mem"
  shows "write_bytes mem 0 bs = bs"
  using write_bytes_eq [of 0 bs mem] assms by simp

lemma small_offsets:
  "ptr + 3 = Suc (Suc (Suc ptr))"
  "ptr + 4 = Suc (Suc (Suc (Suc ptr)))"
  "ptr + 5 = Suc (Suc (Suc (Suc (Suc ptr))))"
  "ptr + 6 = Suc (Suc (Suc (Suc (Suc (Suc ptr)))))"
  "ptr + 7 = Suc (Suc (Suc (Suc (Suc (Suc (Suc ptr))))))"
  by simp_all

lemma length_le_bytes [simp]: "length (le_bytes n x) = n"
  by (simp add: le_bytes_def)

lemma length_be_bytes [simp]: "length (be_bytes n x) = n"
  by (simp add: be_bytes_def)

lemma WriteBE64_bytes: "WriteBE64 mem ptr x = write_bytes mem ptr (be_bytes 8 x)"
  by (simp add: WriteBE64_def be_bytes_def le_bytes_def upt_8 small_offsets)

lemma WriteBE32_bytes: "WriteBE32 mem ptr x = write_bytes mem ptr (be_bytes 4 x)"
  by (simp add: WriteBE32_def be_bytes_def le_bytes_def upt_4 small_offsets)

lemma length_digest_bytes [simp]: "length (digest_bytes st) = 32"
  by (induction st rule: digest_bytes.induct) simp

lemma sha256_done_bytes: "sha256_done mem res st = write_bytes mem res (digest_bytes st)"
  by (induction st rule: digest_bytes.induct) (simp add: WriteBE32_bytes write_bytes_next)

section \<open>Facts about the padding\<close>

lemma unat_pad_count_of:
  "unat (pad_count_of byte_count) = 1 + (119 - unat byte_count mod 64) mod 64"
proof -
  have m: "unat (byte_count mod 64) = unat byte_count mod 64"
    by (simp add: unat_mod)
  have "byte_count mod 64 \<le> 119"
    by (simp add: word_le_nat_alt m)
  then have s: "unat (119 - byte_count mod 64) = 119 - unat byte_count mod 64"
    by (simp add: unat_sub m)
  have "unat ((119 - byte_count mod 64) mod 64) = (119 - unat byte_count mod 64) mod 64"
    by (simp add: unat_mod s)
  then show ?thesis
    by (simp add: pad_count_of_def unat_word_ariths)
qed

lemma pad_count_bounds:
  "1 \<le> unat (pad_count_of byte_count)" "unat (pad_count_of byte_count) \<le> 64"
proof -
  have "(119 - unat byte_count mod 64) mod 64 < 64"
    by simp
  then show "1 \<le> unat (pad_count_of byte_count)" "unat (pad_count_of byte_count) \<le> 64"
    unfolding unat_pad_count_of by simp_all
qed

lemma pad_residue:
  "(119 - n mod 64) mod 64 = (if n mod 64 \<le> 55 then 55 - n mod 64 else 119 - n mod 64)"
  for n :: nat
proof -
  define r where "r = n mod 64"
  have r: "r < 64"
    by (simp add: r_def)
  have "(119 - r) mod 64 = (if r \<le> 55 then 55 - r else 119 - r)"
  proof (cases "r \<le> 55")
    case True
    then have "119 - r = (55 - r) + 64"
      by simp
    then have "(119 - r) mod 64 = ((55 - r) + 64) mod 64"
      by (simp only:)
    also have "\<dots> = (55 - r) mod 64"
      by (rule mod_add_self2)
    also have "\<dots> = 55 - r"
      by simp
    finally show ?thesis
      using True by simp
  next
    case False
    then show ?thesis
      using r by simp
  qed
  then show ?thesis
    by (simp only: r_def)
qed

lemma padded_multiple: "(n + (1 + (119 - n mod 64) mod 64) + 8) mod 64 = 0" for n :: nat
proof -
  define r where "r = n mod 64"
  define k where "k = 1 + (119 - r) mod 64 + 8"
  have r: "r < 64"
    by (simp add: r_def)
  have "(119 - r) mod 64 = (if r \<le> 55 then 55 - r else 119 - r)"
    unfolding r_def by (rule pad_residue)
  then have k: "k = (if r \<le> 55 then 64 - r else 128 - r)"
    using r by (simp add: k_def)
  have "(n + k) mod 64 = (r + k) mod 64"
    unfolding r_def by (rule mod_add_left_eq [symmetric])
  also have "\<dots> = 0"
    using r by (simp add: k)
  finally show ?thesis
    by (simp add: k_def r_def ac_simps)
qed

lemma residue_56:
  fixes m :: nat
  assumes "m < 64" and "(m + 8) mod 64 = 0"
  shows "m = 56"
proof (cases "m < 56")
  case True
  then have "(m + 8) mod 64 = m + 8"
    by simp
  then show ?thesis
    using assms(2) by simp
next
  case False
  then have "m + 8 = (m - 56) + 64"
    by simp
  then have "(m + 8) mod 64 = ((m - 56) + 64) mod 64"
    by (simp only:)
  also have "\<dots> = (m - 56) mod 64"
    by (rule mod_add_self2)
  also have "\<dots> = m - 56"
    using assms(1) by simp
  finally show ?thesis
    using assms(2) False by simp
qed

lemma sixty_four_dvd: "(64::nat) dvd 2 ^ 64"
proof -
  have "(2::nat) ^ 64 = 64 * 2 ^ 58"
    by simp
  then show ?thesis
    by (simp only: dvd_triv_left)
qed

text \<open>The asserted condition, in the 64-bit arithmetic of the code, for every byte count.\<close>

lemma assertion_holds: "(byte_count + pad_count_of byte_count + 8) mod 64 = 0"
proof -
  have "unat ((byte_count + pad_count_of byte_count + 8) mod 64) =
    ((unat byte_count + unat (pad_count_of byte_count) + 8) mod 2 ^ 64) mod 64"
    by (simp add: unat_mod unat_word_ariths mod_simps)
  also have "\<dots> = (unat byte_count + unat (pad_count_of byte_count) + 8) mod 64"
    using sixty_four_dvd by (rule mod_mod_cancel)
  also have "\<dots> = 0"
    unfolding unat_pad_count_of by (rule padded_multiple)
  finally show ?thesis
    by (simp add: unat_eq_0)
qed

lemma first_pass_offsets:
  assumes room: "unat byte_count + 72 < 2 ^ 64"
  shows "unat (byte_count + 1) = unat byte_count + 1"
    and "unat (pad_count_of byte_count - 1) = unat (pad_count_of byte_count) - 1"
    and "unat (byte_count + pad_count_of byte_count) =
      unat byte_count + unat (pad_count_of byte_count)"
    and "unat (byte_count + pad_count_of byte_count + 8) =
      unat byte_count + unat (pad_count_of byte_count) + 8"
proof -
  note b = pad_count_bounds [of byte_count]
  show "unat (byte_count + 1) = unat byte_count + 1"
    using room by (simp add: unat_word_ariths)
  have "1 \<le> pad_count_of byte_count"
    using b(1) by (simp add: word_le_nat_alt)
  then show "unat (pad_count_of byte_count - 1) = unat (pad_count_of byte_count) - 1"
    by (simp add: unat_sub)
  show s: "unat (byte_count + pad_count_of byte_count) =
    unat byte_count + unat (pad_count_of byte_count)"
    using room b(2) by (simp add: unat_word_ariths)
  show "unat (byte_count + pad_count_of byte_count + 8) =
    unat byte_count + unat (pad_count_of byte_count) + 8"
    using room b(2) s by (simp add: unat_word_ariths)
qed

text \<open>The buffer of the first pass: the input, one \<open>0x80\<close>, zeros, the bit count.\<close>

lemma first_pass_data_layout:
  assumes len: "length input = unat byte_count" and room: "unat byte_count + 72 < 2 ^ 64"
  shows "first_pass_data input byte_count =
    input @ [0x80] @ replicate (unat (pad_count_of byte_count) - 1) 0
      @ be_bytes 8 (push_bit 3 byte_count)"
proof -
  define n where "n = unat byte_count"
  define p where "p = unat (pad_count_of byte_count)"
  define tail where "tail = be_bytes 8 (push_bit 3 byte_count)"
  define data0 :: "u8 list" where "data0 = replicate (n + p + 8) 0"
  note off = first_pass_offsets [OF room, folded n_def p_def]
  have p: "1 \<le> p"
    using pad_count_bounds(1) [of byte_count] by (simp add: p_def)
  have "first_pass_data input byte_count =
    write_bytes (write_bytes (write_bytes (write_bytes data0 0 input) n [0x80]) (n + 1)
      (replicate (p - 1) 0)) (n + p) tail"
    using len
    by (simp add: first_pass_data_def Let_def memcpy_def memset_def WriteBE64_bytes off
        data0_def tail_def n_def [symmetric] p_def [symmetric])
  also have "\<dots> = write_bytes data0 0 (input @ [0x80] @ replicate (p - 1) 0 @ tail)"
    using len p by (simp add: write_bytes_append n_def)
  also have "\<dots> = input @ [0x80] @ replicate (p - 1) 0 @ tail"
    using len p by (intro write_bytes_all) (simp add: data0_def tail_def n_def)
  finally show ?thesis
    by (simp add: p_def tail_def)
qed

text \<open>The block of the second pass: the first digest, one \<open>0x80\<close>, 23 zeros, 256.\<close>

lemma second_pass_data_layout:
  assumes "64 \<le> length data"
  shows "second_pass_data data st =
    digest_bytes st @ [0x80] @ replicate 23 0 @ be_bytes 8 (256 :: u64) @ drop 64 data"
proof -
  have "second_pass_data data st =
    write_bytes (write_bytes (write_bytes (write_bytes data 0 (digest_bytes st)) 32 [0x80]) 33
      (replicate 23 0)) 56 (be_bytes 8 (256 :: u64))"
    by (simp add: second_pass_data_def Let_def sha256_done_bytes memset_def WriteBE64_bytes)
  also have "\<dots> =
    write_bytes data 0 (digest_bytes st @ [0x80] @ replicate 23 0 @ be_bytes 8 (256 :: u64))"
    by (simp add: write_bytes_append)
  also have "\<dots> =
    digest_bytes st @ [0x80] @ replicate 23 0 @ be_bytes 8 (256 :: u64) @ drop 64 data"
    using assms by (simp add: write_bytes_eq)
  finally show ?thesis .
qed

text \<open>The two blocks the fast path prepares in its local array.\<close>

lemma two_32_inputs_data_layout:
  assumes "length input = 32" and "length input2 = 32" and "length data = 128"
  shows "two_32_inputs_data data input input2 =
    input @ input2 @ [0x80] @ replicate 55 0 @ be_bytes 8 (512 :: u64)"
proof -
  have "two_32_inputs_data data input input2 =
    write_bytes (write_bytes (write_bytes (write_bytes (write_bytes data 0 input) 32 input2)
      64 [0x80]) 65 (replicate 55 0)) 120 (be_bytes 8 (512 :: u64))"
    using assms by (simp add: two_32_inputs_data_def memcpy_def memset_def WriteBE64_bytes)
  also have "\<dots> =
    write_bytes data 0 (input @ input2 @ [0x80] @ replicate 55 0 @ be_bytes 8 (512 :: u64))"
    using assms by (simp add: write_bytes_append)
  also have "\<dots> = input @ input2 @ [0x80] @ replicate 55 0 @ be_bytes 8 (512 :: u64)"
    using assms by (intro write_bytes_all) simp
  finally show ?thesis .
qed

lemma pad_count_of_64: "pad_count_of 64 = 56"
  by (simp add: pad_count_of_def)

lemma first_pass_data_64:
  assumes "length input = 32" and "length input2 = 32"
  shows "first_pass_data (input @ input2) 64 =
    input @ input2 @ [0x80] @ replicate 55 0 @ be_bytes 8 (512 :: u64)"
proof -
  have "length (input @ input2) = unat (64 :: u64)" and "unat (64 :: u64) + 72 < 2 ^ 64"
    using assms by simp_all
  then have "first_pass_data (input @ input2) 64 =
    (input @ input2) @ [0x80] @ replicate (unat (pad_count_of 64) - 1) 0
      @ be_bytes 8 (push_bit 3 (64 :: u64))"
    by (rule first_pass_data_layout)
  then show ?thesis
    by (simp add: pad_count_of_64)
qed

text \<open>\<^verbatim>\<open>double_sha256\<close> never takes the failing branch of its assertion.\<close>

lemma double_sha256_result:
  "double_sha256 SHA256 input res byte_count =
     Inr (sha256_done res 0
       (SHA256 (second_pass_data (first_pass_data input byte_count)
           (SHA256 (first_pass_data input byte_count) sha256_init
             ((byte_count + pad_count_of byte_count + 8) div 64)))
         sha256_init 1))"
  by (simp add: double_sha256_def Let_def assertion_holds)

section \<open>Facts about the message header\<close>

lemma drop_write_bytes:
  "ptr + length bs \<le> k \<Longrightarrow> drop k (write_bytes mem ptr bs) = drop k mem"
  by (induction bs arbitrary: mem ptr) simp_all

lemma take_write_bytes:
  "k \<le> ptr \<Longrightarrow> take k (write_bytes mem ptr bs) = take k mem"
  by (induction bs arbitrary: mem ptr) simp_all

lemma nth_write_bytes:
  "i < length mem \<Longrightarrow>
   write_bytes mem ptr bs ! i =
     (if ptr \<le> i \<and> i < ptr + length bs then bs ! (i - ptr) else mem ! i)"
proof (induction bs arbitrary: mem ptr)
  case Nil
  then show ?case
    by auto
next
  case (Cons b bs)
  have "write_bytes mem ptr (b # bs) ! i = write_bytes (mem[ptr := b]) (Suc ptr) bs ! i"
    by simp
  also have "\<dots> =
    (if Suc ptr \<le> i \<and> i < Suc ptr + length bs then bs ! (i - Suc ptr)
     else mem[ptr := b] ! i)"
    using Cons.prems by (intro Cons.IH) simp
  also have "\<dots> =
    (if ptr \<le> i \<and> i < ptr + length (b # bs) then (b # bs) ! (i - ptr) else mem ! i)"
    using Cons.prems by (auto simp add: nth_list_update nth_Cons' Suc_diff_le)
  finally show ?case .
qed

text \<open>Reading a field back: a write elsewhere leaves it, a write to it fills it.\<close>

lemma field_write_bytes_other:
  assumes "ptr + length bs \<le> q \<or> q + k \<le> ptr"
  shows "take k (drop q (write_bytes mem ptr bs)) = take k (drop q mem)"
  using assms
proof
  assume "ptr + length bs \<le> q"
  then show ?thesis
    by (simp add: drop_write_bytes)
next
  assume "q + k \<le> ptr"
  then have "take (k + q) (write_bytes mem ptr bs) = take (k + q) mem"
    by (intro take_write_bytes) simp
  then show ?thesis
    by (simp add: take_drop)
qed

lemma field_write_bytes_same:
  assumes "ptr + length bs \<le> length mem"
  shows "take (length bs) (drop ptr (write_bytes mem ptr bs)) = bs"
  using assms by (simp add: write_bytes_eq)

lemma field_eqI:
  assumes "q + k \<le> length xs" and "length ys = k"
    and "\<And>i. i < k \<Longrightarrow> xs ! (q + i) = ys ! i"
  shows "take k (drop q xs) = ys"
  using assms by (intro nth_equalityI) simp_all

lemma command_field:
  assumes "0 \<notin> set command" and "length command \<le> 12" and "16 < length mem"
  shows "take 12 (drop 4 (strcpy (memset mem 4 0 12) 4 command)) =
    command @ replicate (12 - length command) 0"
proof (rule field_eqI)
  show "4 + 12 \<le> length (strcpy (memset mem 4 0 12) 4 command)"
    using assms(3) by (simp add: strcpy_def memset_def)
  show "length (command @ replicate (12 - length command) 0) = 12"
    using assms(2) by simp
  fix i :: nat
  assume "i < 12"
  have tw: "takeWhile (\<lambda>c. c \<noteq> 0) command = command"
    using assms(1) by auto
  show "strcpy (memset mem 4 0 12) 4 command ! (4 + i) =
    (command @ replicate (12 - length command) 0) ! i"
    using assms(2,3) \<open>i < 12\<close>
    by (auto simp add: strcpy_def memset_def tw nth_write_bytes nth_append)
qed

lemma length_object_bytes [simp]: "length (object_bytes host n x) = n"
  by (cases host) (simp_all add: object_bytes_def)

lemma length_double_sha256:
  assumes "double_sha256 SHA256 input res byte_count = Inr digest"
  shows "length digest = length res"
  using assms by (auto simp add: double_sha256_result sha256_done_bytes)

text \<open>The header \<^verbatim>\<open>prepare_message\<close> writes for a command that fits its field.\<close>

lemma prepare_message_fields:
  assumes nul: "0 \<notin> set command" and cmd: "length command \<le> 12"
    and buf: "24 \<le> length headerAndData" and fh: "length fullhash = 32"
  shows "\<exists>out digest.
    prepare_message host SHA256 BITCOIN_MAGIC fullhash command headerAndData datalen = Inr out
    \<and> double_sha256 SHA256 (drop 24 headerAndData) fullhash datalen = Inr digest
    \<and> length out = length headerAndData
    \<and> take 4 out = object_bytes host 4 BITCOIN_MAGIC
    \<and> take 12 (drop 4 out) = command @ replicate (12 - length command) 0
    \<and> take 4 (drop 16 out) = le_bytes 4 (ucast datalen :: u32)
    \<and> take 4 (drop 20 out) = take 4 digest
    \<and> drop 24 out = drop 24 headerAndData"
proof -
  define mem1 where "mem1 = memset headerAndData 4 0 12"
  define mem2 where "mem2 = strcpy mem1 4 command"
  define mem3 where "mem3 = write_bytes mem2 16 (le_bytes 4 (ucast datalen :: u32))"
  define mem4 where "mem4 = write_bytes mem3 0 (object_bytes host 4 BITCOIN_MAGIC)"
  have tw: "takeWhile (\<lambda>c. c \<noteq> 0) command = command"
    using nul by auto
  have len: "length mem1 = length headerAndData" "length mem2 = length headerAndData"
    "length mem3 = length headerAndData" "length mem4 = length headerAndData"
    by (simp_all add: mem1_def mem2_def mem3_def mem4_def memset_def strcpy_def)
  have payload: "drop 24 mem4 = drop 24 headerAndData"
    using cmd
    by (simp add: mem4_def mem3_def mem2_def mem1_def memset_def strcpy_def tw
        drop_write_bytes)
  obtain digest
    where digest: "double_sha256 SHA256 (drop 24 headerAndData) fullhash datalen = Inr digest"
    by (simp add: double_sha256_result)
  have dl: "length digest = 32"
    using length_double_sha256 [OF digest] fh by simp
  define out where "out = write_bytes mem4 20 (take 4 digest)"
  have run:
    "prepare_message host SHA256 BITCOIN_MAGIC fullhash command headerAndData datalen = Inr out"
    using digest payload
    by (simp add: prepare_message_def Let_def offsetof_magic_def offsetof_command_def
        sizeof_command_def offsetof_length_def offsetof_checksum_def sizeof_checksum_def
        sizeof_bitcoin_msg_header_def store_u32_def object_bytes_htole32 memcpy_def
        out_def mem4_def mem3_def mem2_def mem1_def)
  have lo: "length out = length headerAndData"
    by (simp add: out_def len)
  have magic: "take 4 out = object_bytes host 4 BITCOIN_MAGIC"
  proof -
    have "take 4 out = take 4 mem4"
      by (simp add: out_def take_write_bytes)
    also have "\<dots> = object_bytes host 4 BITCOIN_MAGIC"
      using field_write_bytes_same [of 0 "object_bytes host 4 BITCOIN_MAGIC" mem3] buf
      by (simp add: mem4_def len)
    finally show ?thesis .
  qed
  have command: "take 12 (drop 4 out) = command @ replicate (12 - length command) 0"
  proof -
    have "take 12 (drop 4 out) = take 12 (drop 4 mem4)"
      unfolding out_def by (rule field_write_bytes_other) simp
    also have "\<dots> = take 12 (drop 4 mem3)"
      unfolding mem4_def by (rule field_write_bytes_other) simp
    also have "\<dots> = take 12 (drop 4 mem2)"
      unfolding mem3_def by (rule field_write_bytes_other) simp
    also have "\<dots> = command @ replicate (12 - length command) 0"
      unfolding mem2_def mem1_def using nul cmd buf by (intro command_field) simp_all
    finally show ?thesis .
  qed
  have length: "take 4 (drop 16 out) = le_bytes 4 (ucast datalen :: u32)"
  proof -
    have "take 4 (drop 16 out) = take 4 (drop 16 mem4)"
      unfolding out_def by (rule field_write_bytes_other) simp
    also have "\<dots> = take 4 (drop 16 mem3)"
      unfolding mem4_def by (rule field_write_bytes_other) simp
    also have "\<dots> = le_bytes 4 (ucast datalen :: u32)"
      using field_write_bytes_same [of 16 "le_bytes 4 (ucast datalen :: u32)" mem2] buf
      by (simp add: mem3_def len)
    finally show ?thesis .
  qed
  have checksum: "take 4 (drop 20 out) = take 4 digest"
    using field_write_bytes_same [of 20 "take 4 digest" mem4] buf dl
    by (simp add: out_def len)
  have rest: "drop 24 out = drop 24 headerAndData"
    using payload dl by (simp add: out_def drop_write_bytes)
  show ?thesis
    using run digest lo magic command length checksum rest by blast
qed

text \<open>Four little-endian bytes stand for the 32-bit value they were cut from.\<close>

lemma unat_byte_of:
  "unat (ucast (drop_bit k (x :: u32)) :: u8) = (unat x div 2 ^ k) mod 256"
proof -
  have "unat (drop_bit k x) = unat x div 2 ^ k"
    using unsigned_less [of x, where 'a = nat]
    by (simp add: unsigned_drop_bit_eq drop_bit_eq_div [where 'a = nat] take_bit_eq_mod)
  then show ?thesis
    by (simp add: unsigned_ucast_eq take_bit_eq_mod)
qed

lemma four_bytes_value:
  fixes n :: nat
  assumes "n < 2 ^ 32"
  shows "n mod 256 + 256 * (n div 2 ^ 8 mod 256 + 256 * (n div 2 ^ 16 mod 256
    + 256 * (n div 2 ^ 24 mod 256))) = n"
proof -
  define a where "a = n div 256"
  define b where "b = a div 256"
  define c where "c = b div 256"
  have n: "n mod 256 + 256 * a = n"
    by (simp add: a_def)
  have a: "a mod 256 + 256 * b = a"
    by (simp add: b_def)
  have b: "b mod 256 + 256 * c = b"
    by (simp add: c_def)
  have ab: "n div 2 ^ 8 = a"
    by (simp add: a_def)
  have bb: "n div 2 ^ 16 = b"
    by (simp add: a_def b_def div_mult2_eq)
  have cb: "n div 2 ^ 24 = c"
    by (simp add: a_def b_def c_def div_mult2_eq)
  have "c < 256"
    using assms by (simp add: cb [symmetric] less_mult_imp_div_less)
  then have c: "c mod 256 = c"
    by simp
  show ?thesis
    unfolding ab bb cb c by (simp only: b a n)
qed

lemma four_bytes_value_flat:
  fixes n :: nat
  assumes "n < 4294967296"
  shows "n mod 256 + (256 * (n div 256 mod 256) + (65536 * (n div 65536 mod 256)
    + 16777216 * (n div 16777216))) = n"
proof -
  have "n div 16777216 < 256"
    using assms by (simp add: less_mult_imp_div_less)
  then have "n div 16777216 mod 256 = n div 16777216"
    by simp
  then show ?thesis
    using four_bytes_value [of n] assms by simp
qed

lemma le_value_le_bytes_4: "le_value (le_bytes 4 (x :: u32)) = unat x"
proof -
  have "unat x < 2 ^ 32"
    using unsigned_less [of x, where 'a = nat] by simp
  then show ?thesis
    using unat_byte_of [of 0 x] unat_byte_of [of 8 x] unat_byte_of [of 16 x]
      unat_byte_of [of 24 x]
    by (simp add: le_value_def le_bytes_4 four_bytes_value_flat)
qed

lemma unat_narrow_32: "unat (ucast (n :: u64) :: u32) = unat n mod 2 ^ 32"
  by (simp add: unsigned_ucast_eq take_bit_eq_mod)

section \<open>Claims about the varint codec\<close>

text \<open>
  C1, as the specification states it, fails. The encoder's parameter is a
  \<^verbatim>\<open>uint32_t\<close>: a 64-bit value passed to it is narrowed by the call, so \<open>2^32\<close> is
  encoded as the single byte \<open>0x00\<close> and decodes to 0. And the value \<open>2^31\<close>, which the
  encoder writes in the \<open>0xfe\<close> form, does not decode to itself.
\<close>

theorem varint_roundtrip_counterexample:
  "varint LittleEndian (ucast (0x100000000 :: u64)) = [0x00]
   \<and> read_varint (varint LittleEndian (ucast (0x100000000 :: u64))) 0 1 = (Inr 0, 1)
   \<and> read_varint (varint LittleEndian 0x80000000) 0 5 = (Inr 0xFFFFFFFF80000000, 5)"
  by (simp add: varint_bytes read_varint_def move_forward_def deref_def promote_def)

text \<open>
  C1, amended: for every 32-bit value the encoder chooses the narrowest of its three
  forms (one byte below \<open>0xfd\<close>; \<open>0xfd\<close> and a little-endian 16-bit value up to
  \<open>0xffff\<close>; \<open>0xfe\<close> and a little-endian 32-bit value from \<open>0x10000\<close>), on either
  host byte order, and for every value below \<open>2^31\<close> decoding the encoding from its
  start yields the value and consumes exactly the encoding.
\<close>

theorem varint_minimal_and_roundtrip:
  "(sz < 0xfd \<longrightarrow> varint host sz = [ucast sz])
   \<and> (0xfd \<le> sz \<and> sz \<le> 0xffff \<longrightarrow> varint host sz = 0xfd # le_bytes 2 sz)
   \<and> (0x10000 \<le> sz \<longrightarrow> varint host sz = 0xfe # le_bytes 4 sz)
   \<and> (sz < 0x80000000 \<longrightarrow>
        read_varint (varint host sz) 0 (length (varint host sz)) =
          (Inr (ucast sz), length (varint host sz)))"
proof (intro conjI impI)
  assume "sz < 0xfd"
  then show "varint host sz = [ucast sz]"
    by (simp add: varint_bytes)
next
  assume "0xfd \<le> sz \<and> sz \<le> 0xffff"
  then show "varint host sz = 0xfd # le_bytes 2 sz"
    by (simp add: varint_bytes le_bytes_2 not_less)
next
  assume "0x10000 \<le> sz"
  then have "\<not> sz \<le> 0xffff" and "\<not> sz < 0xfd"
    by (simp_all add: word_le_nat_alt word_less_nat_alt)
  then show "varint host sz = 0xfe # le_bytes 4 sz"
    by (simp add: varint_bytes le_bytes_4)
next
  assume "sz < 0x80000000"
  then show "read_varint (varint host sz) 0 (length (varint host sz)) =
    (Inr (ucast sz), length (varint host sz))"
    by (rule read_varint_varint)
qed

theorem varint_minimal_and_roundtrip_witness:
  "varint LittleEndian 0x12 = [0x12]
   \<and> varint BigEndian 0x1234 = [0xfd, 0x34, 0x12]
   \<and> varint LittleEndian 0x12345678 = [0xfe, 0x78, 0x56, 0x34, 0x12]
   \<and> read_varint [0xfe, 0x78, 0x56, 0x34, 0x12] 0 5 = (Inr 0x12345678, 5)"
proof -
  have one: "varint LittleEndian 0x12 = [0x12]"
    using varint_minimal_and_roundtrip [of "0x12" LittleEndian] by simp
  have three: "varint BigEndian 0x1234 = [0xfd, 0x34, 0x12]"
    using varint_minimal_and_roundtrip [of "0x1234" BigEndian] by (simp add: le_bytes_2)
  have five: "varint LittleEndian 0x12345678 = [0xfe, 0x78, 0x56, 0x34, 0x12]"
    using varint_minimal_and_roundtrip [of "0x12345678" LittleEndian] by (simp add: le_bytes_4)
  have small: "(0x12345678 :: u32) < 0x80000000"
    by simp
  have "read_varint (varint LittleEndian 0x12345678) 0 (length (varint LittleEndian 0x12345678)) =
    (Inr (ucast (0x12345678 :: u32)), length (varint LittleEndian 0x12345678))"
    using varint_minimal_and_roundtrip [of "0x12345678" LittleEndian] small by blast
  moreover have "length [0xfe, 0x78, 0x56, 0x34, 0x12 :: u8] = 5"
    and "ucast (0x12345678 :: u32) = (0x12345678 :: u64)"
    by simp_all
  ultimately have "read_varint [0xfe, 0x78, 0x56, 0x34, 0x12] 0 5 = (Inr 0x12345678, 5)"
    unfolding five by (simp only:)
  then show ?thesis
    using one three five by simp
qed

text \<open>
  C2 fails on the code: the \<open>0xfe\<close> branch assembles the four bytes in \<^verbatim>\<open>int\<close>, so
  a top byte of \<open>0x80\<close> or more makes the \<^verbatim>\<open>int\<close> negative and the conversion to
  \<^verbatim>\<open>uint64_t\<close> sets the upper 32 bits. On the bytes \<open>fe 00 00 00 80\<close> the result is
  \<open>0xFFFFFFFF80000000\<close>, not \<open>0x80000000\<close>.
\<close>

theorem read_varint_fe_sign_extends:
  "read_varint [0xfe, 0x00, 0x00, 0x00, 0x80] 0 5 = (Inr 0xFFFFFFFF80000000, 5)"
  by (simp add: read_varint_def move_forward_def deref_def promote_def)

text \<open>
  C3, as the specification states it, fails: on \<open>0xff\<close> followed by two bytes the call
  throws, but the caller's iterator has moved past the prefix byte.
\<close>

theorem read_varint_truncated_counterexample:
  "read_varint [0xff, 0x01, 0x02] 0 3 = (Inl read_exception, 1)
   \<and> snd (read_varint [0xff, 0x01, 0x02] 0 3) \<noteq> 0"
  by (simp add: read_varint_def move_forward_def deref_def)

text \<open>
  C3, amended: on a non-empty buffer with no byte left between the cursor and the end,
  \<^verbatim>\<open>read_varint\<close> throws \<^verbatim>\<open>read_exception\<close> and leaves the iterator where it
  was; on the prefix \<open>0xff\<close> followed by fewer than 8 bytes it throws
  \<^verbatim>\<open>read_exception\<close> and leaves the iterator one past the prefix byte.
\<close>

theorem read_varint_truncated:
  "(buf \<noteq> [] \<and> it = end_it \<and> end_it \<le> length buf \<longrightarrow>
        read_varint buf it end_it = (Inl read_exception, it))
   \<and> (it < end_it \<and> end_it \<le> length buf \<and> buf ! it = 0xff \<and> end_it - (it + 1) < 8 \<longrightarrow>
        read_varint buf it end_it = (Inl read_exception, it + 1))"
  by (simp add: read_varint_at_end read_varint_ff_short)

theorem read_varint_truncated_witness:
  "read_varint [0x2a] 1 1 = (Inl read_exception, 1)
   \<and> read_varint [0xff, 0x01, 0x02, 0x03, 0x04, 0x05, 0x06, 0x07] 0 8 = (Inl read_exception, 1)"
  using read_varint_truncated [of "[0x2a]" 1 1]
    read_varint_truncated [of "[0xff, 0x01, 0x02, 0x03, 0x04, 0x05, 0x06, 0x07]" 0 8]
  by simp

text \<open>
  C9: on the prefix \<open>0xfd\<close> followed by two bytes \<^verbatim>\<open>read_varint\<close> returns the
  little-endian 16-bit value of those bytes, whatever it is, and advances by 3; so
  \<open>fd 01 00\<close> decodes to 1.
\<close>

theorem read_varint_non_minimal:
  assumes "it + 3 \<le> end_it" and "end_it \<le> length buf" and "buf ! it = 0xfd"
  shows "read_varint buf it end_it =
    (Inr (of_nat (unat (buf ! (it + 1)) + 256 * unat (buf ! (it + 2)))), it + 3)"
  using assms(1,3) by (simp add: read_varint_fd int16_value)

theorem read_varint_non_minimal_witness:
  "read_varint [0xfd, 0x01, 0x00] 0 3 = (Inr 1, 3)"
  using read_varint_non_minimal [of 0 3 "[0xfd, 0x01, 0x00]"] by simp

text \<open>
  C10: the encoding of a 32-bit value is 1, 3 or 5 bytes long and never starts with
  \<open>0xff\<close>; the guard of the branch that would write the 9-byte form holds for every
  32-bit value, so that branch is not reached.
\<close>

theorem varint_never_nine_bytes:
  "(length (varint host sz) = 1 \<or> length (varint host sz) = 3 \<or> length (varint host sz) = 5)
   \<and> hd (varint host sz) \<noteq> 0xff
   \<and> sz \<le> 0xffffffff"
proof -
  have "unat sz < 2 ^ 32"
    using unsigned_less [of sz, where 'a = nat] by simp
  then have top: "sz \<le> 0xffffffff"
    by (simp add: word_le_nat_alt)
  have "hd (varint host sz) \<noteq> 0xff"
  proof (cases "sz < 0xfd")
    case True
    then have "(ucast sz :: u8) < 0xfd"
      by (rule narrow_below_fd(1))
    then show ?thesis
      using True by (auto simp add: varint_bytes)
  next
    case False
    then show ?thesis
      by (simp add: varint_bytes)
  qed
  then show ?thesis
    using top by (simp add: varint_bytes)
qed

section \<open>Claims about the double hash\<close>

text \<open>
  C4: for two 32-byte inputs, whatever the compression routine, the local array and the
  output buffer hold on entry, \<^verbatim>\<open>double_sha256_two_32_inputs\<close> leaves in the 32-byte
  output buffer exactly what \<^verbatim>\<open>double_sha256\<close> leaves there for the 64-byte
  concatenation.
\<close>

theorem two_32_inputs_equivalence:
  assumes "length input = 32" and "length input2 = 32"
    and "length data = 128" and "length res = 32"
  shows "double_sha256 SHA256 (input @ input2) res 64 =
      Inr (double_sha256_two_32_inputs SHA256 data input input2 res)
    \<and> length (double_sha256_two_32_inputs SHA256 data input input2 res) = 32"
proof -
  have "(64 + pad_count_of 64 + 8 :: u64) div 64 = 2"
    by (simp add: pad_count_of_64)
  then have "double_sha256 SHA256 (input @ input2) res 64 =
    Inr (double_sha256_two_32_inputs SHA256 data input input2 res)"
    by (simp add: double_sha256_result double_sha256_two_32_inputs_def Let_def
        first_pass_data_64 [OF assms(1,2)] two_32_inputs_data_layout [OF assms(1,2,3)])
  moreover have "length (double_sha256_two_32_inputs SHA256 data input input2 res) = 32"
    using assms(4) by (simp add: double_sha256_two_32_inputs_def Let_def sha256_done_bytes)
  ultimately show ?thesis
    by simp
qed

theorem two_32_inputs_equivalence_witness:
  "\<forall>SHA256.
     double_sha256 SHA256 (replicate 32 0x11 @ replicate 32 0x22) (replicate 32 0) 64 =
       Inr (double_sha256_two_32_inputs SHA256 (replicate 128 0xaa) (replicate 32 0x11)
         (replicate 32 0x22) (replicate 32 0))
     \<and> length (double_sha256_two_32_inputs SHA256 (replicate 128 0xaa) (replicate 32 0x11)
         (replicate 32 0x22) (replicate 32 0)) = 32"
proof
  fix SHA256 :: SHA256_fn
  have "length (replicate 32 (0x11 :: u8)) = 32" and "length (replicate 32 (0x22 :: u8)) = 32"
    and "length (replicate 128 (0xaa :: u8)) = 128" and "length (replicate 32 (0 :: u8)) = 32"
    by simp_all
  then show "double_sha256 SHA256 (replicate 32 0x11 @ replicate 32 0x22) (replicate 32 0) 64 =
       Inr (double_sha256_two_32_inputs SHA256 (replicate 128 0xaa) (replicate 32 0x11)
         (replicate 32 0x22) (replicate 32 0))
     \<and> length (double_sha256_two_32_inputs SHA256 (replicate 128 0xaa) (replicate 32 0x11)
         (replicate 32 0x22) (replicate 32 0)) = 32"
    by (rule two_32_inputs_equivalence)
qed

text \<open>
  C8: for every byte count the asserted condition holds in the code's 64-bit arithmetic and
  \<^verbatim>\<open>double_sha256\<close> returns a digest. For an input of \<open>byte_count\<close> bytes whose padded
  length fits 64 bits, the first-pass buffer is the input, one \<open>0x80\<close> byte, fewer than 64
  zero bytes that bring the length to 56 modulo 64, and the bit count (modulo \<open>2^64\<close>) as
  8 big-endian bytes;
  its length is \<open>byte_count + pad_count + 8\<close>, positive and a multiple of 64. The block of
  the second pass is the 32-byte digest, one \<open>0x80\<close> byte, 23 zero bytes and the bit count
  256 as 8 big-endian bytes.
\<close>

theorem double_sha256_padding:
  "(byte_count + pad_count_of byte_count + 8) mod 64 = 0
   \<and> double_sha256 SHA256 input res byte_count =
       Inr (sha256_done res 0
         (SHA256 (second_pass_data (first_pass_data input byte_count)
             (SHA256 (first_pass_data input byte_count) sha256_init
               ((byte_count + pad_count_of byte_count + 8) div 64)))
           sha256_init 1))
   \<and> (length input = unat byte_count \<and> unat byte_count + 72 < 2 ^ 64 \<longrightarrow>
        first_pass_data input byte_count =
          input @ [0x80] @ replicate (unat (pad_count_of byte_count) - 1) 0
            @ be_bytes 8 (of_nat (8 * length input) :: u64)
        \<and> unat (pad_count_of byte_count) - 1 < 64
        \<and> (length input + 1 + (unat (pad_count_of byte_count) - 1)) mod 64 = 56
        \<and> length (first_pass_data input byte_count) =
            unat byte_count + unat (pad_count_of byte_count) + 8
        \<and> 0 < length (first_pass_data input byte_count)
        \<and> 64 dvd length (first_pass_data input byte_count)
        \<and> take 64 (second_pass_data (first_pass_data input byte_count) st) =
            digest_bytes st @ [0x80] @ replicate 23 0 @ be_bytes 8 (256 :: u64))"
proof (intro conjI impI)
  show "(byte_count + pad_count_of byte_count + 8) mod 64 = 0"
    by (rule assertion_holds)
  show "double_sha256 SHA256 input res byte_count =
       Inr (sha256_done res 0
         (SHA256 (second_pass_data (first_pass_data input byte_count)
             (SHA256 (first_pass_data input byte_count) sha256_init
               ((byte_count + pad_count_of byte_count + 8) div 64)))
           sha256_init 1))"
    by (rule double_sha256_result)
next
  assume h: "length input = unat byte_count \<and> unat byte_count + 72 < 2 ^ 64"
  then have len: "length input = unat byte_count" and room: "unat byte_count + 72 < 2 ^ 64"
    by simp_all
  define p where "p = unat (pad_count_of byte_count)"
  have p: "1 \<le> p" "p \<le> 64"
    using pad_count_bounds [of byte_count] by (simp_all add: p_def)
  have bits: "push_bit 3 byte_count = (of_nat (8 * length input) :: u64)"
    by (simp add: len push_bit_eq_mult mult.commute)
  have layout: "first_pass_data input byte_count =
    input @ [0x80] @ replicate (p - 1) 0 @ be_bytes 8 (of_nat (8 * length input) :: u64)"
    using first_pass_data_layout [OF len room] by (simp only: bits p_def)
  then show "first_pass_data input byte_count =
          input @ [0x80] @ replicate (unat (pad_count_of byte_count) - 1) 0
            @ be_bytes 8 (of_nat (8 * length input) :: u64)"
    by (simp only: p_def)
  show "unat (pad_count_of byte_count) - 1 < 64"
    using p by (simp add: p_def [symmetric])
  have total: "(unat byte_count + p + 8) mod 64 = 0"
    using padded_multiple [of "unat byte_count"] by (simp add: p_def unat_pad_count_of)
  have "((unat byte_count + p) mod 64 + 8) mod 64 = 0"
    using total by (simp add: mod_add_left_eq)
  then have "(unat byte_count + p) mod 64 = 56"
    by (intro residue_56) simp_all
  then show "(length input + 1 + (unat (pad_count_of byte_count) - 1)) mod 64 = 56"
    using p by (simp add: len p_def [symmetric])
  have l: "length (first_pass_data input byte_count) = unat byte_count + p + 8"
    using p by (simp add: layout len)
  then show "length (first_pass_data input byte_count) =
            unat byte_count + unat (pad_count_of byte_count) + 8"
    by (simp only: p_def)
  show pos: "0 < length (first_pass_data input byte_count)"
    by (simp add: l)
  show dv: "64 dvd length (first_pass_data input byte_count)"
    using total by (simp add: l mod_eq_0_iff_dvd)
  have "64 \<le> length (first_pass_data input byte_count)"
    using dv pos by (rule dvd_imp_le)
  then show "take 64 (second_pass_data (first_pass_data input byte_count) st) =
            digest_bytes st @ [0x80] @ replicate 23 0 @ be_bytes 8 (256 :: u64)"
    by (simp add: second_pass_data_layout)
qed

theorem double_sha256_padding_witness:
  "first_pass_data [0x61, 0x62, 0x63] 3 =
     [0x61, 0x62, 0x63, 0x80] @ replicate 52 0 @ [0, 0, 0, 0, 0, 0, 0, 0x18]
   \<and> length (first_pass_data [0x61, 0x62, 0x63] 3) = 64
   \<and> first_pass_data [] 0 = [0x80] @ replicate 55 0 @ [0, 0, 0, 0, 0, 0, 0, 0]
   \<and> length (first_pass_data [] 0) = 64"
proof -
  have three: "length [0x61, 0x62, 0x63 :: u8] = unat (3 :: u64) \<and> unat (3 :: u64) + 72 < 2 ^ 64"
    by simp
  have none: "length ([] :: u8 list) = unat (0 :: u64) \<and> unat (0 :: u64) + 72 < 2 ^ 64"
    by simp
  have p3: "unat (pad_count_of 3) = 53" and p0: "unat (pad_count_of 0) = 56"
    by (simp_all add: pad_count_of_def)
  have b3: "be_bytes 8 (24 :: u64) = [0, 0, 0, 0, 0, 0, 0, 0x18]"
    and b0: "be_bytes 8 (0 :: u64) = [0, 0, 0, 0, 0, 0, 0, 0]"
    by (simp_all add: be_bytes_def le_bytes_def upt_8)
  note w3 = double_sha256_padding
    [of 3 SHA256_unchanged "[0x61, 0x62, 0x63]" "[]" sha256_init,
      THEN conjunct2, THEN conjunct2, THEN mp, OF three]
  note w0 = double_sha256_padding
    [of 0 SHA256_unchanged "[]" "[]" sha256_init,
      THEN conjunct2, THEN conjunct2, THEN mp, OF none]
  have "first_pass_data [0x61, 0x62, 0x63] 3 =
     [0x61, 0x62, 0x63, 0x80] @ replicate 52 0 @ [0, 0, 0, 0, 0, 0, 0, 0x18]"
    using w3 [THEN conjunct1] by (simp add: p3 b3)
  moreover have "length (first_pass_data [0x61, 0x62, 0x63] 3) = 64"
    using w3 [THEN conjunct2, THEN conjunct2, THEN conjunct2, THEN conjunct1] by (simp add: p3)
  moreover have "first_pass_data [] 0 = [0x80] @ replicate 55 0 @ [0, 0, 0, 0, 0, 0, 0, 0]"
    using w0 [THEN conjunct1] by (simp add: p0 b0)
  moreover have "length (first_pass_data [] 0) = 64"
    using w0 [THEN conjunct2, THEN conjunct2, THEN conjunct2, THEN conjunct1] by (simp add: p0)
  ultimately show ?thesis
    by (simp only: simp_thms)
qed

section \<open>Claims about the message framer\<close>

text \<open>
  C5, as the specification states it, fails: the length field has 32 bits and
  \<^verbatim>\<open>htole32(datalen)\<close> keeps the low 32 bits of the count. For the command
  \<open>ping\<close> and a payload of \<open>2^32 + 5\<close> bytes the length field decodes to 5, which is
  not the payload's byte count.
\<close>

theorem prepare_message_header_counterexample:
  "map_sum id (le_value \<circ> take 4 \<circ> drop 16)
     (prepare_message LittleEndian SHA256_unchanged 0xD9B4BEF9 (replicate 32 0)
        [0x70, 0x69, 0x6e, 0x67] (replicate (24 + (2 ^ 32 + 5)) 0) 0x100000005) = Inr 5
   \<and> length (drop 24 (replicate (24 + (2 ^ 32 + 5)) (0 :: u8))) = 2 ^ 32 + 5"
proof -
  have "0 \<notin> set [0x70, 0x69, 0x6e, 0x67 :: u8]"
    and "length [0x70, 0x69, 0x6e, 0x67 :: u8] \<le> 12"
    and "24 \<le> length (replicate (24 + (2 ^ 32 + 5)) (0 :: u8))"
    and "length (replicate 32 (0 :: u8)) = 32"
    by simp_all
  from prepare_message_fields
    [OF this, of LittleEndian SHA256_unchanged "0xD9B4BEF9" "0x100000005"]
  obtain out where
    run: "prepare_message LittleEndian SHA256_unchanged 0xD9B4BEF9 (replicate 32 0)
        [0x70, 0x69, 0x6e, 0x67] (replicate (24 + (2 ^ 32 + 5)) 0) 0x100000005 = Inr out"
    and len: "take 4 (drop 16 out) = le_bytes 4 (ucast (0x100000005 :: u64) :: u32)"
    by blast
  have "(ucast (0x100000005 :: u64) :: u32) = 5"
    by simp
  then have "le_value (take 4 (drop 16 out)) = 5"
    by (simp only: len le_value_le_bytes_4) simp
  then show ?thesis
    using run by simp
qed

text \<open>
  C5, amended: for a command of at most 11 characters and a buffer that holds the 24-byte
  header followed by a payload of \<open>datalen\<close> bytes, \<open>datalen\<close> at most \<open>2^32 - 1\<close>,
  \<^verbatim>\<open>prepare_message\<close> leaves a buffer of the same length in which bytes 0 to 3 are
  the stored magic constant, bytes 4 to 15 the command followed by zero bytes, bytes 16 to
  19 the payload byte count as a little-endian 32-bit integer, bytes 20 to 23 the first
  four bytes of \<^verbatim>\<open>double_sha256\<close> of the payload, and the payload is untouched. The
  counts 0, 1 and 100000 are among these.
\<close>

theorem prepare_message_header:
  assumes "0 \<notin> set command" and "length command \<le> 11"
    and "length headerAndData = 24 + unat datalen" and "unat datalen < 2 ^ 32"
    and "length fullhash = 32"
  shows "\<exists>out digest.
    prepare_message host SHA256 BITCOIN_MAGIC fullhash command headerAndData datalen = Inr out
    \<and> double_sha256 SHA256 (drop 24 headerAndData) fullhash datalen = Inr digest
    \<and> length out = length headerAndData
    \<and> take 4 out = object_bytes host 4 BITCOIN_MAGIC
    \<and> take 12 (drop 4 out) = command @ replicate (12 - length command) 0
    \<and> take 4 (drop 16 out) = le_bytes 4 (of_nat (length (drop 24 headerAndData)) :: u32)
    \<and> le_value (take 4 (drop 16 out)) = length (drop 24 headerAndData)
    \<and> take 4 (drop 20 out) = take 4 digest
    \<and> drop 24 out = drop 24 headerAndData"
proof -
  have cmd: "length command \<le> 12"
    using assms(2) by simp
  have buf: "24 \<le> length headerAndData"
    using assms(3) by simp
  obtain out digest where
    run: "prepare_message host SHA256 BITCOIN_MAGIC fullhash command headerAndData datalen
      = Inr out"
    and digest: "double_sha256 SHA256 (drop 24 headerAndData) fullhash datalen = Inr digest"
    and fields: "length out = length headerAndData"
      "take 4 out = object_bytes host 4 BITCOIN_MAGIC"
      "take 12 (drop 4 out) = command @ replicate (12 - length command) 0"
      "take 4 (drop 20 out) = take 4 digest"
      "drop 24 out = drop 24 headerAndData"
    and len: "take 4 (drop 16 out) = le_bytes 4 (ucast datalen :: u32)"
    using prepare_message_fields [OF assms(1) cmd buf assms(5)] by blast
  have count: "length (drop 24 headerAndData) = unat datalen"
    using assms(3) by simp
  have "(ucast datalen :: u32) = of_nat (unat datalen)"
    by simp
  then have l1: "take 4 (drop 16 out) = le_bytes 4 (of_nat (length (drop 24 headerAndData)) :: u32)"
    using len count by simp
  have "le_value (take 4 (drop 16 out)) = unat datalen mod 2 ^ 32"
    by (simp only: len le_value_le_bytes_4 unat_narrow_32)
  then have l2: "le_value (take 4 (drop 16 out)) = length (drop 24 headerAndData)"
    using count assms(4) by simp
  show ?thesis
    using run digest fields l1 l2 by blast
qed

theorem prepare_message_header_witness:
  "\<forall>SHA256. \<exists>out digest.
    prepare_message LittleEndian SHA256 0xD9B4BEF9 (replicate 32 0) [0x70, 0x69, 0x6e, 0x67]
      (replicate 24 0 @ [0x61]) 1 = Inr out
    \<and> double_sha256 SHA256 [0x61] (replicate 32 0) 1 = Inr digest
    \<and> length out = 25
    \<and> take 4 out = [0xf9, 0xbe, 0xb4, 0xd9]
    \<and> take 12 (drop 4 out) = [0x70, 0x69, 0x6e, 0x67, 0, 0, 0, 0, 0, 0, 0, 0]
    \<and> take 4 (drop 16 out) = [1, 0, 0, 0]
    \<and> le_value (take 4 (drop 16 out)) = 1
    \<and> take 4 (drop 20 out) = take 4 digest
    \<and> drop 24 out = [0x61]"
proof
  fix SHA256 :: SHA256_fn
  have "0 \<notin> set [0x70, 0x69, 0x6e, 0x67 :: u8]" and "length [0x70, 0x69, 0x6e, 0x67 :: u8] \<le> 11"
    and "length (replicate 24 0 @ [0x61 :: u8]) = 24 + unat (1 :: u64)"
    and "unat (1 :: u64) < 2 ^ 32"
    and "length (replicate 32 (0 :: u8)) = 32"
    by simp_all
  from prepare_message_header [OF this, of LittleEndian SHA256 "0xD9B4BEF9"]
  obtain out digest where
    "prepare_message LittleEndian SHA256 0xD9B4BEF9 (replicate 32 0) [0x70, 0x69, 0x6e, 0x67]
      (replicate 24 0 @ [0x61]) 1 = Inr out"
    and "double_sha256 SHA256 (drop 24 (replicate 24 0 @ [0x61])) (replicate 32 0) 1 = Inr digest"
    and "length out = length (replicate 24 0 @ [0x61 :: u8])"
    and "take 4 out = object_bytes LittleEndian 4 (0xD9B4BEF9 :: u32)"
    and "take 12 (drop 4 out) =
      [0x70, 0x69, 0x6e, 0x67] @ replicate (12 - length [0x70, 0x69, 0x6e, 0x67 :: u8]) 0"
    and "take 4 (drop 16 out) =
      le_bytes 4 (of_nat (length (drop 24 (replicate 24 0 @ [0x61 :: u8]))) :: u32)"
    and "le_value (take 4 (drop 16 out)) = length (drop 24 (replicate 24 0 @ [0x61 :: u8]))"
    and "take 4 (drop 20 out) = take 4 digest"
    and "drop 24 out = drop 24 (replicate 24 0 @ [0x61])"
    by blast
  moreover have "object_bytes LittleEndian 4 (0xD9B4BEF9 :: u32) = [0xf9, 0xbe, 0xb4, 0xd9]"
    and "le_bytes 4 (1 :: u32) = [1, 0, 0, 0]"
    by (simp_all add: object_bytes_def le_bytes_4)
  moreover have "replicate (12 - length [0x70, 0x69, 0x6e, 0x67 :: u8]) (0 :: u8) =
      [0, 0, 0, 0, 0, 0, 0, 0]"
    by (simp add: numeral_eq_Suc)
  ultimately show "\<exists>out digest.
    prepare_message LittleEndian SHA256 0xD9B4BEF9 (replicate 32 0) [0x70, 0x69, 0x6e, 0x67]
      (replicate 24 0 @ [0x61]) 1 = Inr out
    \<and> double_sha256 SHA256 [0x61] (replicate 32 0) 1 = Inr digest
    \<and> length out = 25
    \<and> take 4 out = [0xf9, 0xbe, 0xb4, 0xd9]
    \<and> take 12 (drop 4 out) = [0x70, 0x69, 0x6e, 0x67, 0, 0, 0, 0, 0, 0, 0, 0]
    \<and> take 4 (drop 16 out) = [1, 0, 0, 0]
    \<and> le_value (take 4 (drop 16 out)) = 1
    \<and> take 4 (drop 20 out) = take 4 digest
    \<and> drop 24 out = [0x61]"
    by simp
qed

text \<open>
  C6, as the specification states it, fails: \<^verbatim>\<open>prepare_message\<close> checks no length and
  has no result to report a failure with. Given the 13-character command
  \<open>abcdefghijklm\<close> and a header buffer with an empty payload it returns normally; the
  command field holds the first 12 characters (the 13th and the terminator fall on the
  length field, which is written afterwards).
\<close>

theorem prepare_message_long_command_counterexample:
  "map_sum id (take 12 \<circ> drop 4)
     (prepare_message LittleEndian SHA256_unchanged 0xD9B4BEF9 (replicate 32 0)
        [0x61, 0x62, 0x63, 0x64, 0x65, 0x66, 0x67, 0x68, 0x69, 0x6a, 0x6b, 0x6c, 0x6d]
        (replicate 24 0) 0) =
   Inr [0x61, 0x62, 0x63, 0x64, 0x65, 0x66, 0x67, 0x68, 0x69, 0x6a, 0x6b, 0x6c]"
  by code_simp

text \<open>
  C6, amended: a command of at most 11 characters, whose copy with its terminator stays
  inside the 12-byte command field, is accepted, and its field is the command followed by
  zero bytes up to 12. Nothing is stated for a longer command.
\<close>

theorem prepare_message_command:
  assumes "0 \<notin> set command" and "length command \<le> 11"
    and "length headerAndData = 24 + unat datalen" and "length fullhash = 32"
  shows "\<exists>out.
    prepare_message host SHA256 BITCOIN_MAGIC fullhash command headerAndData datalen = Inr out
    \<and> take 12 (drop 4 out) = command @ replicate (12 - length command) 0
    \<and> out ! (4 + length command) = 0"
proof -
  have cmd: "length command \<le> 12"
    using assms(2) by simp
  have buf: "24 \<le> length headerAndData"
    using assms(3) by simp
  obtain out where
    run: "prepare_message host SHA256 BITCOIN_MAGIC fullhash command headerAndData datalen
      = Inr out"
    and len: "length out = length headerAndData"
    and field: "take 12 (drop 4 out) = command @ replicate (12 - length command) 0"
    using prepare_message_fields [OF assms(1) cmd buf assms(4)] by blast
  have "out ! (4 + length command) = take 12 (drop 4 out) ! length command"
    using assms(2) len buf by simp
  also have "\<dots> = replicate (12 - length command) (0 :: u8) ! 0"
    by (simp only: field nth_append_length_plus [of command _ 0, simplified])
  also have "\<dots> = 0"
    using assms(2) by simp
  finally have "out ! (4 + length command) = 0" .
  then show ?thesis
    using run field by blast
qed

theorem prepare_message_command_witness:
  "\<forall>SHA256. \<exists>out.
     prepare_message LittleEndian SHA256 0xD9B4BEF9 (replicate 32 0)
        [0x70, 0x69, 0x6e, 0x67] (replicate 24 0) 0 = Inr out
     \<and> take 12 (drop 4 out) = [0x70, 0x69, 0x6e, 0x67, 0, 0, 0, 0, 0, 0, 0, 0]
     \<and> out ! 8 = 0"
proof
  fix SHA256 :: SHA256_fn
  let ?ping = "[0x70, 0x69, 0x6e, 0x67] :: u8 list"
  have "0 \<notin> set ?ping" and "length ?ping \<le> 11"
    and "length (replicate 24 (0 :: u8)) = 24 + unat (0 :: u64)"
    and "length (replicate 32 (0 :: u8)) = 32"
    by simp_all
  from prepare_message_command [OF this, of LittleEndian SHA256 "0xD9B4BEF9"]
  obtain out where
    "prepare_message LittleEndian SHA256 0xD9B4BEF9 (replicate 32 0) ?ping
      (replicate 24 0) 0 = Inr out"
    and "take 12 (drop 4 out) = ?ping @ replicate (12 - length ?ping) 0"
    and "out ! (4 + length ?ping) = 0"
    by blast
  moreover have "?ping @ replicate (12 - length ?ping) 0 =
    [0x70, 0x69, 0x6e, 0x67, 0, 0, 0, 0, 0, 0, 0, 0]"
    by (simp add: numeral_eq_Suc)
  moreover have "4 + length ?ping = 8"
    by simp
  ultimately show "\<exists>out.
     prepare_message LittleEndian SHA256 0xD9B4BEF9 (replicate 32 0) ?ping
        (replicate 24 0) 0 = Inr out
     \<and> take 12 (drop 4 out) = [0x70, 0x69, 0x6e, 0x67, 0, 0, 0, 0, 0, 0, 0, 0]
     \<and> out ! 8 = 0"
    by simp
qed

text \<open>
  C7, as the specification states it, fails: \<^verbatim>\<open>htole32(datalen)\<close> narrows the
  \<^verbatim>\<open>size_t\<close> to 32 bits and nothing checks the size. For a payload of \<open>2^32\<close> bytes
  \<^verbatim>\<open>prepare_message\<close> returns normally with the length field \<open>00 00 00 00\<close>.
\<close>

theorem prepare_message_large_payload_counterexample:
  "map_sum id (take 4 \<circ> drop 16)
     (prepare_message LittleEndian SHA256_unchanged 0xD9B4BEF9 (replicate 32 0)
        [0x70, 0x69, 0x6e, 0x67] (replicate (24 + 2 ^ 32) 0) 0x100000000) =
   Inr [0, 0, 0, 0]"
proof -
  have "0 \<notin> set [0x70, 0x69, 0x6e, 0x67 :: u8]"
    and "length [0x70, 0x69, 0x6e, 0x67 :: u8] \<le> 12"
    and "24 \<le> length (replicate (24 + 2 ^ 32) (0 :: u8))"
    and "length (replicate 32 (0 :: u8)) = 32"
    by simp_all
  from prepare_message_fields
    [OF this, of LittleEndian SHA256_unchanged "0xD9B4BEF9" "0x100000000"]
  obtain out where
    "prepare_message LittleEndian SHA256_unchanged 0xD9B4BEF9 (replicate 32 0)
        [0x70, 0x69, 0x6e, 0x67] (replicate (24 + 2 ^ 32) 0) 0x100000000 = Inr out"
    and "take 4 (drop 16 out) = le_bytes 4 (ucast (0x100000000 :: u64) :: u32)"
    by blast
  moreover have "le_bytes 4 (ucast (0x100000000 :: u64) :: u32) = [0, 0, 0, 0]"
    by (simp add: le_bytes_4)
  ultimately show ?thesis
    by simp
qed

text \<open>
  C7, amended: \<^verbatim>\<open>prepare_message\<close> has no size failure. For every payload it writes,
  as the length field, the little-endian 32-bit encoding of the payload byte count modulo
  \<open>2^32\<close>; the field decodes back to exactly the payload's byte count when that count
  is at most \<open>2^32 - 1\<close>.
\<close>

theorem prepare_message_length:
  assumes "0 \<notin> set command" and "length command \<le> 12"
    and "length headerAndData = 24 + unat datalen" and "length fullhash = 32"
  shows "\<exists>out.
    prepare_message host SHA256 BITCOIN_MAGIC fullhash command headerAndData datalen = Inr out
    \<and> take 4 (drop 16 out) = le_bytes 4 (ucast datalen :: u32)
    \<and> le_value (take 4 (drop 16 out)) = length (drop 24 headerAndData) mod 2 ^ 32
    \<and> (length (drop 24 headerAndData) < 2 ^ 32 \<longrightarrow>
         le_value (take 4 (drop 16 out)) = length (drop 24 headerAndData))"
proof -
  have buf: "24 \<le> length headerAndData"
    using assms(3) by simp
  obtain out where
    run: "prepare_message host SHA256 BITCOIN_MAGIC fullhash command headerAndData datalen
      = Inr out"
    and len: "take 4 (drop 16 out) = le_bytes 4 (ucast datalen :: u32)"
    using prepare_message_fields [OF assms(1,2) buf assms(4)] by blast
  have count: "length (drop 24 headerAndData) = unat datalen"
    using assms(3) by simp
  have "le_value (take 4 (drop 16 out)) = unat datalen mod 2 ^ 32"
    by (simp only: len le_value_le_bytes_4 unat_narrow_32)
  then have v: "le_value (take 4 (drop 16 out)) = length (drop 24 headerAndData) mod 2 ^ 32"
    by (simp only: count)
  then have "length (drop 24 headerAndData) < 2 ^ 32 \<longrightarrow>
    le_value (take 4 (drop 16 out)) = length (drop 24 headerAndData)"
    by simp
  then show ?thesis
    using run len v by blast
qed

theorem prepare_message_length_witness:
  "\<forall>SHA256. \<exists>out.
    prepare_message LittleEndian SHA256 0xD9B4BEF9 (replicate 32 0) [0x70, 0x69, 0x6e, 0x67]
      (replicate 24 0 @ [0x61, 0x62, 0x63]) 3 = Inr out
    \<and> take 4 (drop 16 out) = [3, 0, 0, 0]
    \<and> le_value (take 4 (drop 16 out)) = 3"
proof
  fix SHA256 :: SHA256_fn
  let ?buf = "replicate 24 0 @ [0x61, 0x62, 0x63] :: u8 list"
  have "0 \<notin> set [0x70, 0x69, 0x6e, 0x67 :: u8]" and "length [0x70, 0x69, 0x6e, 0x67 :: u8] \<le> 12"
    and "length ?buf = 24 + unat (3 :: u64)" and "length (replicate 32 (0 :: u8)) = 32"
    by simp_all
  from prepare_message_length [OF this, of LittleEndian SHA256 "0xD9B4BEF9"]
  obtain out where
    "prepare_message LittleEndian SHA256 0xD9B4BEF9 (replicate 32 0) [0x70, 0x69, 0x6e, 0x67]
      ?buf 3 = Inr out"
    and "take 4 (drop 16 out) = le_bytes 4 (ucast (3 :: u64) :: u32)"
    and "length (drop 24 ?buf) < 2 ^ 32 \<longrightarrow>
      le_value (take 4 (drop 16 out)) = length (drop 24 ?buf)"
    by blast
  moreover have "le_bytes 4 (ucast (3 :: u64) :: u32) = [3, 0, 0, 0]"
    by (simp add: le_bytes_4)
  moreover have "length (drop 24 ?buf) = 3"
    by simp
  ultimately show "\<exists>out.
    prepare_message LittleEndian SHA256 0xD9B4BEF9 (replicate 32 0) [0x70, 0x69, 0x6e, 0x67]
      ?buf 3 = Inr out
    \<and> take 4 (drop 16 out) = [3, 0, 0, 0]
    \<and> le_value (take 4 (drop 16 out)) = 3"
    by simp
qed

section \<open>Further properties\<close>

lemma int32_bytes:
  fixes b0 b1 b2 b3 :: u8
  defines "w \<equiv> (push_bit 24 (promote b3) OR push_bit 16 (promote b2)
    OR push_bit 8 (promote b1) OR promote b0 :: c_int)"
  shows "le_bytes 4 w = [b0, b1, b2, b3]"
  unfolding le_bytes_4 w_def promote_def
  by simp (intro conjI bit_word_eqI; auto simp add: bit_simps dest: bit_imp_le_length)

lemma u64_bytes:
  fixes b0 b1 b2 b3 b4 b5 b6 b7 :: u8
  defines "v \<equiv> (push_bit 56 (ucast b7) OR push_bit 48 (ucast b6) OR push_bit 40 (ucast b5)
    OR push_bit 32 (ucast b4) OR push_bit 24 (ucast b3) OR push_bit 16 (ucast b2)
    OR push_bit 8 (ucast b1) OR ucast b0 :: u64)"
  shows "le_bytes 8 v = [b0, b1, b2, b3, b4, b5, b6, b7]"
  unfolding le_bytes_def upt_8 v_def
  by simp (intro conjI bit_word_eqI; auto simp add: bit_simps dest: bit_imp_le_length)

lemma top_bit_of_byte: "bit (b :: u8) 7 \<longleftrightarrow> 0x80 \<le> b"
proof -
  have lt: "unat b < 256"
    using unsigned_less [of b, where 'a = nat] by simp
  have "bit b 7 \<longleftrightarrow> bit (unat b) 7"
    by (simp add: bit_unsigned_iff)
  also have "\<dots> \<longleftrightarrow> odd (unat b div 2 ^ 7)"
    by (simp add: bit_iff_odd)
  also have "\<dots> \<longleftrightarrow> 128 \<le> unat b"
  proof (cases "unat b < 128")
    case True
    then show ?thesis
      by simp
  next
    case False
    then have "unat b = (unat b - 128) + 128" and "unat b - 128 < 128"
      using lt by simp_all
    then have "unat b div 128 = ((unat b - 128) + 128) div 128"
      by (simp only:)
    also have "\<dots> = (unat b - 128) div 128 + 1"
      by (rule div_add_self2) simp
    also have "\<dots> = 1"
      using \<open>unat b - 128 < 128\<close> by simp
    finally show ?thesis
      using False by simp
  qed
  also have "\<dots> \<longleftrightarrow> 0x80 \<le> b"
    by (simp add: word_le_nat_alt)
  finally show ?thesis .
qed

lemma int32_sign:
  fixes b0 b1 b2 b3 :: u8
  defines "w \<equiv> (push_bit 24 (promote b3) OR push_bit 16 (promote b2)
    OR push_bit 8 (promote b1) OR promote b0 :: c_int)"
  shows "bit w 31 \<longleftrightarrow> 0x80 \<le> b3"
proof -
  have "bit w 31 \<longleftrightarrow> bit b3 7"
    unfolding w_def promote_def by (auto simp add: bit_simps dest: bit_imp_le_length)
  then show ?thesis
    by (simp add: top_bit_of_byte)
qed

lemma scast_sign_clear:
  assumes "\<not> bit (w :: c_int) 31"
  shows "(scast w :: u64) = ucast w"
  using assms
  by (intro bit_word_eqI)
    (auto simp add: bit_word_scast_iff bit_ucast_iff dest: bit_imp_le_length)

lemma scast_sign_set:
  assumes "bit (w :: c_int) 31"
  shows "(scast w :: u64) = ucast w OR push_bit 32 (mask 32)"
  using assms
  by (intro bit_word_eqI)
    (auto simp add: bit_word_scast_iff bit_simps dest: bit_imp_le_length)

lemma high_mask: "(push_bit 32 (mask 32) :: u64) = 0xFFFFFFFF00000000"
  by (simp add: mask_eq_exp_minus_1 push_bit_eq_mult)

lemma unat_scast_sign_set:
  assumes "bit (w :: c_int) 31"
  shows "unat (scast w :: u64) = unat w + 0xFFFFFFFF00000000"
proof -
  have w: "unat w < 2 ^ 32"
    using unsigned_less [of w, where 'a = nat] by simp
  have "(scast w :: u64) = ucast w + push_bit 32 (mask 32)"
    unfolding scast_sign_set [OF assms]
    by (rule disjunctive_add [symmetric]) (auto simp add: bit_simps dest: bit_imp_le_length)
  then have "unat (scast w :: u64) =
    (unat (ucast w :: u64) + unat (0xFFFFFFFF00000000 :: u64)) mod 2 ^ 64"
    by (simp add: high_mask unat_word_ariths)
  also have "unat (ucast w :: u64) = unat w"
    using w by (simp add: unsigned_ucast_eq take_bit_eq_mod)
  finally show ?thesis
    using w by simp
qed

text \<open>
  The \<open>0xfe\<close> branch on every input: the cursor advances by 5, and the result is the
  little-endian value of the four bytes when the last of them is below \<open>0x80\<close>, and
  that value with the upper 32 bits set otherwise.
\<close>

theorem read_varint_fe_value:
  assumes "it + 5 \<le> end_it" and "end_it \<le> length buf" and "buf ! it = 0xfe"
  shows "\<exists>v. read_varint buf it end_it = (Inr v, it + 5)
    \<and> unat v = le_value [buf ! (it + 1), buf ! (it + 2), buf ! (it + 3), buf ! (it + 4)]
        + (if buf ! (it + 4) < 0x80 then 0 else 0xFFFFFFFF00000000)"
proof -
  define w where "w = (push_bit 24 (promote (buf ! (it + 4)))
    OR push_bit 16 (promote (buf ! (it + 3))) OR push_bit 8 (promote (buf ! (it + 2)))
    OR promote (buf ! (it + 1)) :: c_int)"
  have run: "read_varint buf it end_it = (Inr (scast w), it + 5)"
    unfolding w_def using assms(1,3) by (rule read_varint_fe)
  have "le_bytes 4 w = [buf ! (it + 1), buf ! (it + 2), buf ! (it + 3), buf ! (it + 4)]"
    unfolding w_def by (rule int32_bytes)
  then have val:
    "unat w = le_value [buf ! (it + 1), buf ! (it + 2), buf ! (it + 3), buf ! (it + 4)]"
    using le_value_le_bytes_4 [of w] by simp
  have sign: "bit w 31 \<longleftrightarrow> 0x80 \<le> buf ! (it + 4)"
    unfolding w_def by (rule int32_sign)
  have lt: "unat w < 2 ^ 32"
    using unsigned_less [of w, where 'a = nat] by simp
  have "unat (scast w :: u64) =
    unat w + (if buf ! (it + 4) < 0x80 then 0 else 0xFFFFFFFF00000000)"
  proof (cases "buf ! (it + 4) < 0x80")
    case True
    then have "\<not> bit w 31"
      using sign by (simp add: not_le)
    then have "(scast w :: u64) = ucast w"
      by (rule scast_sign_clear)
    then show ?thesis
      using True lt by (simp add: unsigned_ucast_eq take_bit_eq_mod)
  next
    case False
    then have "bit w 31"
      using sign by (simp add: not_less)
    then show ?thesis
      using False by (simp add: unat_scast_sign_set)
  qed
  then show ?thesis
    using run val by simp
qed

theorem read_varint_fe_value_example:
  "(\<exists>v. read_varint [0xfe, 0x78, 0x56, 0x34, 0x12] 0 5 = (Inr v, 5) \<and> unat v = 0x12345678)
   \<and> (\<exists>v. read_varint [0xfe, 0x00, 0x00, 0x00, 0x80] 0 5 = (Inr v, 5)
        \<and> unat v = 0x80000000 + 0xFFFFFFFF00000000)"
  using read_varint_fe_value [of 0 5 "[0xfe, 0x78, 0x56, 0x34, 0x12]"]
    read_varint_fe_value [of 0 5 "[0xfe, 0x00, 0x00, 0x00, 0x80]"]
  by (simp add: le_value_def)

text \<open>
  The \<open>0xff\<close> branch: the cursor advances by 9 and the eight bytes of the result, least
  significant first, are the eight bytes after the prefix.
\<close>

theorem read_varint_ff_value:
  assumes "it + 9 \<le> end_it" and "end_it \<le> length buf" and "buf ! it = 0xff"
  shows "\<exists>v. read_varint buf it end_it = (Inr v, it + 9)
    \<and> le_bytes 8 v = [buf ! (it + 1), buf ! (it + 2), buf ! (it + 3), buf ! (it + 4),
        buf ! (it + 5), buf ! (it + 6), buf ! (it + 7), buf ! (it + 8)]"
  using read_varint_ff [OF assms(1,3)] by (simp add: u64_bytes)

theorem read_varint_ff_value_example:
  "\<exists>v. read_varint [0xff, 1, 2, 3, 4, 5, 6, 7, 8] 0 9 = (Inr v, 9)
    \<and> le_bytes 8 v = [1, 2, 3, 4, 5, 6, 7, 8]"
  using read_varint_ff_value [of 0 9 "[0xff, 1, 2, 3, 4, 5, 6, 7, 8]"] by simp

text \<open>The encoder writes the same bytes on a little-endian and on a big-endian host.\<close>

theorem varint_host_independent: "varint LittleEndian sz = varint BigEndian sz"
  by (simp add: varint_bytes)

text \<open>
  The 32 bytes \<^verbatim>\<open>double_sha256\<close> leaves in the output buffer are the words of the final
  state, each most significant byte first, whatever the buffer held before.
\<close>

theorem double_sha256_digest:
  assumes "length res = 32"
  shows "double_sha256 SHA256 input res byte_count =
    Inr (digest_bytes
      (SHA256 (second_pass_data (first_pass_data input byte_count)
          (SHA256 (first_pass_data input byte_count) sha256_init
            ((byte_count + pad_count_of byte_count + 8) div 64)))
        sha256_init 1))"
  using assms by (simp add: double_sha256_result sha256_done_bytes write_bytes_all)

theorem double_sha256_digest_example:
  "double_sha256 SHA256_unchanged [] (replicate 32 0xee) 0 =
     Inr [0x6a, 0x09, 0xe6, 0x67, 0xbb, 0x67, 0xae, 0x85, 0x3c, 0x6e, 0xf3, 0x72,
          0xa5, 0x4f, 0xf5, 0x3a, 0x51, 0x0e, 0x52, 0x7f, 0x9b, 0x05, 0x68, 0x8c,
          0x1f, 0x83, 0xd9, 0xab, 0x5b, 0xe0, 0xcd, 0x19]"
proof -
  have "length (replicate 32 (0xee :: u8)) = 32"
    by simp
  from double_sha256_digest [OF this, of SHA256_unchanged "[]" 0]
  show ?thesis
    by (simp add: SHA256_unchanged_def sha256_init_def be_bytes_def le_bytes_def upt_4)
qed

end
